theory Spec2Isabelle
  imports Complex_Main "HOL-Library.AList"
begin

section \<open>Python values: exceptions, lists, matrices, object arrays\<close>

text \<open>
  The exceptions the program can raise, by the name Python gives them.  The design text
  speaks of \<open>DimensionMismatchError\<close>, \<open>SingularMetricError\<close> and \<open>DimensionalityError\<close>;
  the code raises the matrix library's \<open>NonSquareMatrixError\<close> and
  \<open>NonInvertibleMatrixError\<close> and, for the two-dimensional check, an \<open>AssertionError\<close>.
\<close>

datatype error =
  ValueError | NonSquareMatrixError | NonInvertibleMatrixError
  | AssertionError | IndexError | KeyError | TypeError

definition bindE :: "error + 'a \<Rightarrow> ('a \<Rightarrow> error + 'b) \<Rightarrow> error + 'b" where
  "bindE m f = (case m of Inl e \<Rightarrow> Inl e | Inr x \<Rightarrow> f x)"

text \<open>\<open>for i in is: s = body i s\<close>, stopping at the first exception.\<close>

fun for_range :: "'i list \<Rightarrow> ('i \<Rightarrow> 's \<Rightarrow> error + 's) \<Rightarrow> 's \<Rightarrow> error + 's" where
  "for_range [] body s = Inr s"
| "for_range (i # is) body s = bindE (body i s) (for_range is body)"

text \<open>\<open>[f(i) for i in is]\<close>, stopping at the first exception.\<close>

fun list_comp :: "'i list \<Rightarrow> ('i \<Rightarrow> error + 'a) \<Rightarrow> error + 'a list" where
  "list_comp [] f = Inr []"
| "list_comp (i # is) f = bindE (f i) (\<lambda>x. bindE (list_comp is f) (\<lambda>xs. Inr (x # xs)))"

text \<open>\<open>xs[i]\<close> for an index that is not negative.\<close>

definition nth_py :: "'a list \<Rightarrow> nat \<Rightarrow> error + 'a" where
  "nth_py xs i = (if i < length xs then Inr (xs ! i) else Inl IndexError)"

text \<open>A matrix is the list of its rows; \<open>M[i, j]\<close> raises outside the matrix.\<close>

definition rectangular :: "'a list list \<Rightarrow> bool" where
  "rectangular m = list_all (\<lambda>row. length row = length (hd m)) m"

definition is_square :: "'a list list \<Rightarrow> bool" where
  "is_square m = list_all (\<lambda>row. length row = length m) m"

definition mget :: "'a list list \<Rightarrow> nat \<Rightarrow> nat \<Rightarrow> error + 'a" where
  "mget m i j = (if i < length m \<and> j < length (m ! i) then Inr (m ! i ! j) else Inl IndexError)"

text \<open>
  A numpy array of Python objects: its shape, and the object stored at each index tuple.
  Reading or writing outside the shape raises.
\<close>

record 'a ndarray =
  shape :: "nat list"
  data :: "nat list \<Rightarrow> 'a"

definition np_zeros :: "nat list \<Rightarrow> ('a::zero) ndarray" where
  "np_zeros sh = \<lparr>shape = sh, data = (\<lambda>_. 0)\<rparr>"

definition in_shape :: "'a ndarray \<Rightarrow> nat list \<Rightarrow> bool" where
  "in_shape a idx = list_all2 (<) idx (shape a)"

definition np_get :: "'a ndarray \<Rightarrow> nat list \<Rightarrow> error + 'a" where
  "np_get a idx = (if in_shape a idx then Inr (data a idx) else Inl IndexError)"

definition np_set :: "'a ndarray \<Rightarrow> nat list \<Rightarrow> 'a \<Rightarrow> error + 'a ndarray" where
  "np_set a idx v = (if in_shape a idx then Inr (a\<lparr>data := (data a)(idx := v)\<rparr>) else Inl IndexError)"

text \<open>\<open>a[idx] += rhs\<close>: the old entry is read, the right-hand side evaluated, the sum stored.\<close>

definition iadd :: "('a::plus) ndarray \<Rightarrow> nat list \<Rightarrow> error + 'a \<Rightarrow> error + 'a ndarray" where
  "iadd a idx rhs = bindE (np_get a idx) (\<lambda>old. bindE rhs (\<lambda>t. np_set a idx (old + t)))"

text \<open>A dictionary keeps its keys in insertion order; a missing key raises.\<close>

definition dict_get :: "('k \<times> 'w) list \<Rightarrow> 'k \<Rightarrow> error + 'w" where
  "dict_get d k = (case map_of d k of None \<Rightarrow> Inl KeyError | Some v \<Rightarrow> Inr v)"

section \<open>The collaborators: computer algebra, random numbers, ODE solver\<close>

text \<open>
  Symbolic scalars are values of a type \<open>'e\<close> with the ring operations and a division;
  coordinate symbols are values of a type \<open>'v\<close>.  What the computer-algebra library does
  beyond arithmetic is a parameter of the model:
  \<^item> \<open>bk_diff e v\<close> is \<open>diff(e, v)\<close>, \<open>bk_simplify e\<close> is \<open>simplify(e)\<close>, and
    \<open>bk_simplify_array\<close> is \<open>simplify\<close> on an object array;
  \<^item> \<open>bk_inv m\<close> is \<open>m.inv()\<close> on a square matrix (\<open>None\<close>: the matrix was found
    singular), \<open>bk_det m\<close> is \<open>m.det()\<close>;
  \<^item> \<open>bk_Function v\<close> is \<open>Function(v)(symbols('s'))\<close>, \<open>bk_diff_s e\<close> is \<open>e.diff(s)\<close>,
    \<open>bk_dot_symbol e\<close> is \<open>symbols(f'{str(e)}_dot')\<close>, \<open>bk_subs e d\<close> is \<open>e.subs(d)\<close>.
\<close>

record ('e, 'v) symbolic_backend =
  bk_diff :: "'e \<Rightarrow> 'v \<Rightarrow> 'e"
  bk_simplify :: "'e \<Rightarrow> 'e"
  bk_simplify_array :: "'e ndarray \<Rightarrow> 'e ndarray"
  bk_inv :: "'e list list \<Rightarrow> 'e list list option"
  bk_det :: "'e list list \<Rightarrow> 'e"
  bk_Function :: "'v \<Rightarrow> 'e"
  bk_diff_s :: "'e \<Rightarrow> 'e"
  bk_dot_symbol :: "'e \<Rightarrow> 'v"
  bk_subs :: "'e \<Rightarrow> ('e \<times> 'v) list \<Rightarrow> 'e"

text \<open>
  The numeric side: numbers are values of a type \<open>'r\<close>, the state of the global random
  generator a value of a type \<open>'g\<close>, a seed a value of a type \<open>'s\<close>.
  \<^item> \<open>bk_seed s g\<close> is the generator state after \<open>np.random.seed(s)\<close> in state \<open>g\<close>;
  \<^item> \<open>bk_random g\<close> is the number \<open>np.random.random()\<close> returns in state \<open>g\<close>, and
    the state after the draw;
  \<^item> \<open>bk_lambdify args e\<close> is the numeric function \<open>lambdify(args, e)\<close> of
    \<open>length args\<close> arguments;
  \<^item> \<open>bk_odeint f y0 t\<close> is \<open>odeint(f, y0, t)\<close>; an exception of \<open>f\<close> passes through.
\<close>

record ('e, 'v, 'r, 'g, 's) numeric_backend =
  bk_seed :: "'s \<Rightarrow> 'g \<Rightarrow> 'g"
  bk_random :: "'g \<Rightarrow> 'r \<times> 'g"
  bk_lambdify :: "'v list \<Rightarrow> 'e \<Rightarrow> 'r list \<Rightarrow> 'r"
  bk_odeint :: "('r list \<Rightarrow> 'r \<Rightarrow> error + 'r list) \<Rightarrow> 'r list \<Rightarrow> 'r list \<Rightarrow> error + 'r list list"

text \<open>\<open>Matrix(metric)\<close> for a list of rows, \<open>M.inv()\<close> and \<open>M.det()\<close>.\<close>

definition Matrix :: "'e list list \<Rightarrow> error + 'e list list" where
  "Matrix rows = (if rectangular rows then Inr rows else Inl ValueError)"

definition Matrix_inv :: "('e, 'v) symbolic_backend \<Rightarrow> 'e list list \<Rightarrow> error + 'e list list" where
  "Matrix_inv B m =
     (if \<not> is_square m then Inl NonSquareMatrixError
      else case bk_inv B m of None \<Rightarrow> Inl NonInvertibleMatrixError | Some i \<Rightarrow> Inr i)"

definition Matrix_det :: "('e, 'v) symbolic_backend \<Rightarrow> 'e list list \<Rightarrow> error + 'e" where
  "Matrix_det B m = (if \<not> is_square m then Inl NonSquareMatrixError else Inr (bk_det B m))"

section \<open>class DifferentialGeometry\<close>

record ('e, 'v) DifferentialGeometry =
  metric :: "'e list list"
  inverse_metric :: "'e list list"
  det :: "'e"
  ndim :: nat
  variables :: "'v list"
  parameterized_vars :: "'e list"

definition DifferentialGeometry_init ::
  "('e, 'v) symbolic_backend \<Rightarrow> 'e list list \<Rightarrow> 'v list \<Rightarrow> error + ('e, 'v) DifferentialGeometry" where
  "DifferentialGeometry_init B metric_arg variables_arg =
     bindE (Matrix metric_arg) (\<lambda>m.
     bindE (Matrix_inv B m) (\<lambda>i.
     bindE (Matrix_det B m) (\<lambda>d.
       Inr \<lparr>metric = m, inverse_metric = i, det = d, ndim = length metric_arg,
            variables = variables_arg,
            parameterized_vars = map (bk_Function B) variables_arg\<rparr>)))"

section \<open>class ClassicalDifferentialGeometry\<close>

record ('e, 'v) ClassicalDifferentialGeometry = "('e, 'v) DifferentialGeometry" +
  gaussian_curvature :: "'e"

text \<open>
  \<open>compute_gaussian_curvature\<close>.  The entries and symbols the four terms read are fetched
  first: each read that fails raises the same \<open>IndexError\<close>.
\<close>

definition compute_gaussian_curvature ::
  "('e::{comm_ring_1,inverse}, 'v) symbolic_backend \<Rightarrow> ('e, 'v, 'z) DifferentialGeometry_scheme \<Rightarrow> error + 'e" where
  "compute_gaussian_curvature B self =
     bindE (mget (metric self) 0 1) (\<lambda>g01.
     bindE (nth_py (variables self) 0) (\<lambda>x0.
     bindE (nth_py (variables self) 1) (\<lambda>x1.
     bindE (mget (metric self) 0 0) (\<lambda>g00.
     bindE (mget (metric self) 1 1) (\<lambda>g11.
       let diff = bk_diff B; det = det self;
           first_term = (2 * diff (diff g01 x0) x1 - diff (diff g00 x1) x1 - diff (diff g11 x0) x0) / (2 * det);
           second_term = (diff g00 x0 * (2 * diff g01 x1 - diff g11 x0) - (diff g00 x1) ^ 2) * g11 / (4 * det ^ 2);
           third_term = (diff g00 x0 * diff g11 x1 - 2 * diff g00 x1 * diff g11 x0
                          + (2 * diff g01 x0 - diff g00 x1) * (2 * diff g01 x1 - diff g11 x0)) * g01 / (4 * det ^ 2);
           forth_term = (diff g11 x1 * (2 * diff g01 x0 - diff g00 x1) - (diff g11 x0) ^ 2) * g00 / (4 * det ^ 2)
       in Inr (bk_simplify B (first_term - second_term + third_term - forth_term)))))))"

definition ClassicalDifferentialGeometry_init ::
  "('e::{comm_ring_1,inverse}, 'v) symbolic_backend \<Rightarrow> 'e list list \<Rightarrow> 'v list
     \<Rightarrow> error + ('e, 'v) ClassicalDifferentialGeometry" where
  "ClassicalDifferentialGeometry_init B metric_arg variables_arg =
     bindE (DifferentialGeometry_init B metric_arg variables_arg) (\<lambda>self.
       if ndim self \<noteq> 2 then Inl AssertionError
       else bindE (compute_gaussian_curvature B self) (\<lambda>k.
         Inr \<lparr>metric = metric self, inverse_metric = inverse_metric self, det = det self,
              ndim = ndim self, variables = variables self,
              parameterized_vars = parameterized_vars self, gaussian_curvature = k\<rparr>))"

section \<open>class RiemannGeometry\<close>

record ('e, 'v) RiemannGeometry = "('e, 'v) DifferentialGeometry" +
  christoffel_symbols :: "'e ndarray"
  riemann_curvature_tensor :: "'e ndarray"
  ricci_tensor :: "'e ndarray"
  ricci_scalar :: "'e"
  einstein_tensor :: "'e ndarray"

text \<open>
  The methods run inside \<open>__init__\<close>, on an object that has the attributes set so far:
  each takes the object after \<open>super().__init__\<close> and, as further arguments, the tensors
  it reads from \<open>self\<close>.
\<close>

text \<open>The right-hand side of the innermost statement of \<open>compute_christoffel_symbols\<close>.\<close>

definition christoffel_term ::
  "('e::{comm_ring_1,inverse}, 'v) symbolic_backend \<Rightarrow> ('e, 'v, 'z) DifferentialGeometry_scheme
     \<Rightarrow> nat \<Rightarrow> nat \<Rightarrow> nat \<Rightarrow> nat \<Rightarrow> error + 'e" where
  "christoffel_term B self rho lamda nu mu =
     bindE (mget (inverse_metric self) rho mu) (\<lambda>inv_g_rho_mu.
     bindE (mget (metric self) mu nu) (\<lambda>g_mu_nu.
     bindE (nth_py (variables self) lamda) (\<lambda>x_lamda.
     bindE (mget (metric self) mu lamda) (\<lambda>g_mu_lamda.
     bindE (nth_py (variables self) nu) (\<lambda>x_nu.
     bindE (mget (metric self) nu lamda) (\<lambda>g_nu_lamda.
     bindE (nth_py (variables self) mu) (\<lambda>x_mu.
       Inr (inv_g_rho_mu * (bk_diff B g_mu_nu x_lamda + bk_diff B g_mu_lamda x_nu
                             - bk_diff B g_nu_lamda x_mu) / 2))))))))"

definition compute_christoffel_symbols ::
  "('e::{comm_ring_1,inverse}, 'v) symbolic_backend \<Rightarrow> ('e, 'v, 'z) DifferentialGeometry_scheme
     \<Rightarrow> error + 'e ndarray" where
  "compute_christoffel_symbols B self =
     (let n = ndim self in
      for_range [0..<n] (\<lambda>rho.
        for_range [0..<n] (\<lambda>lamda.
          for_range [0..<n] (\<lambda>nu cs.
            bindE (for_range [0..<n] (\<lambda>mu cs.
                     iadd cs [rho, lamda, nu] (christoffel_term B self rho lamda nu mu)) cs) (\<lambda>cs.
            bindE (np_get cs [rho, lamda, nu]) (\<lambda>v.
              np_set cs [rho, lamda, nu] (bk_simplify B v))))))
        (np_zeros [n, n, n]))"

text \<open>The two right-hand sides of \<open>compute_riemann_curvature_tensor\<close>.\<close>

definition riemann_product_term ::
  "('e::{comm_ring_1,inverse}) ndarray \<Rightarrow> nat \<Rightarrow> nat \<Rightarrow> nat \<Rightarrow> nat \<Rightarrow> nat \<Rightarrow> error + 'e" where
  "riemann_product_term gamma rho lamda mu nu sigma =
     bindE (np_get gamma [sigma, lamda, mu]) (\<lambda>a.
     bindE (np_get gamma [rho, sigma, nu]) (\<lambda>b.
     bindE (np_get gamma [sigma, lamda, nu]) (\<lambda>c.
     bindE (np_get gamma [rho, sigma, mu]) (\<lambda>d.
       Inr (- a * b + c * d)))))"

definition riemann_derivative_term ::
  "('e::{comm_ring_1,inverse}, 'v) symbolic_backend \<Rightarrow> ('e, 'v, 'z) DifferentialGeometry_scheme
     \<Rightarrow> 'e ndarray \<Rightarrow> nat \<Rightarrow> nat \<Rightarrow> nat \<Rightarrow> nat \<Rightarrow> error + 'e" where
  "riemann_derivative_term B self gamma rho lamda mu nu =
     bindE (np_get gamma [rho, lamda, mu]) (\<lambda>a.
     bindE (nth_py (variables self) nu) (\<lambda>x_nu.
     bindE (np_get gamma [rho, lamda, nu]) (\<lambda>b.
     bindE (nth_py (variables self) mu) (\<lambda>x_mu.
       Inr (- bk_diff B a x_nu + bk_diff B b x_mu)))))"

definition compute_riemann_curvature_tensor ::
  "('e::{comm_ring_1,inverse}, 'v) symbolic_backend \<Rightarrow> ('e, 'v, 'z) DifferentialGeometry_scheme
     \<Rightarrow> 'e ndarray \<Rightarrow> error + 'e ndarray" where
  "compute_riemann_curvature_tensor B self gamma =
     (let n = ndim self in
      for_range [0..<n] (\<lambda>rho.
        for_range [0..<n] (\<lambda>lamda.
          for_range [0..<n] (\<lambda>mu.
            for_range [0..<n] (\<lambda>nu rt.
              bindE (for_range [0..<n] (\<lambda>sigma rt.
                       iadd rt [rho, lamda, mu, nu]
                         (riemann_product_term gamma rho lamda mu nu sigma)) rt) (\<lambda>rt.
              bindE (iadd rt [rho, lamda, mu, nu]
                       (riemann_derivative_term B self gamma rho lamda mu nu)) (\<lambda>rt.
              bindE (np_get rt [rho, lamda, mu, nu]) (\<lambda>v.
                np_set rt [rho, lamda, mu, nu] (bk_simplify B v))))))))
        (np_zeros [n, n, n, n]))"

definition compute_ricci_tensor ::
  "('e::{comm_ring_1,inverse}, 'v) symbolic_backend \<Rightarrow> ('e, 'v, 'z) DifferentialGeometry_scheme
     \<Rightarrow> 'e ndarray \<Rightarrow> error + 'e ndarray" where
  "compute_ricci_tensor B self riemann =
     (let n = ndim self in
      for_range [0..<n] (\<lambda>mu.
        for_range [0..<n] (\<lambda>nu rc.
          bindE (for_range [0..<n] (\<lambda>lamda rc.
                   iadd rc [mu, nu] (np_get riemann [lamda, mu, lamda, nu])) rc) (\<lambda>rc.
          bindE (np_get rc [mu, nu]) (\<lambda>v.
            np_set rc [mu, nu] (bk_simplify B v)))))
        (np_zeros [n, n]))"

definition compute_ricci_scalar ::
  "('e::{comm_ring_1,inverse}, 'v) symbolic_backend \<Rightarrow> ('e, 'v, 'z) DifferentialGeometry_scheme
     \<Rightarrow> 'e ndarray \<Rightarrow> error + 'e" where
  "compute_ricci_scalar B self ricci =
     (let n = ndim self in
      bindE (for_range [0..<n] (\<lambda>mu.
               for_range [0..<n] (\<lambda>nu rs.
                 bindE (mget (inverse_metric self) mu nu) (\<lambda>inv_g_mu_nu.
                 bindE (np_get ricci [mu, nu]) (\<lambda>ricci_mu_nu.
                   Inr (rs + inv_g_mu_nu * ricci_mu_nu))))) 0) (\<lambda>rs.
        Inr (bk_simplify B rs)))"

definition compute_einstein_tensor ::
  "('e::{comm_ring_1,inverse}, 'v) symbolic_backend \<Rightarrow> ('e, 'v, 'z) DifferentialGeometry_scheme
     \<Rightarrow> 'e ndarray \<Rightarrow> 'e \<Rightarrow> error + 'e ndarray" where
  "compute_einstein_tensor B self ricci rs =
     (let n = ndim self in
      bindE (for_range [0..<n] (\<lambda>mu.
               for_range [0..<n] (\<lambda>nu et.
                 bindE (np_get ricci [mu, nu]) (\<lambda>ricci_mu_nu.
                 bindE (mget (metric self) mu nu) (\<lambda>g_mu_nu.
                   np_set et [mu, nu] (ricci_mu_nu - (1 / 2) * rs * g_mu_nu)))))
               (np_zeros [n, n])) (\<lambda>et.
        Inr (bk_simplify_array B et)))"

definition RiemannGeometry_init ::
  "('e::{comm_ring_1,inverse}, 'v) symbolic_backend \<Rightarrow> 'e list list \<Rightarrow> 'v list
     \<Rightarrow> error + ('e, 'v) RiemannGeometry" where
  "RiemannGeometry_init B metric_arg variables_arg =
     bindE (DifferentialGeometry_init B metric_arg variables_arg) (\<lambda>self.
     bindE (compute_christoffel_symbols B self) (\<lambda>cs.
     bindE (compute_riemann_curvature_tensor B self cs) (\<lambda>rt.
     bindE (compute_ricci_tensor B self rt) (\<lambda>rc.
     bindE (compute_ricci_scalar B self rc) (\<lambda>rs.
     bindE (compute_einstein_tensor B self rc rs) (\<lambda>et.
       Inr \<lparr>metric = metric self, inverse_metric = inverse_metric self, det = det self,
            ndim = ndim self, variables = variables self,
            parameterized_vars = parameterized_vars self,
            christoffel_symbols = cs, riemann_curvature_tensor = rt, ricci_tensor = rc,
            ricci_scalar = rs, einstein_tensor = et\<rparr>))))))"

section \<open>The geodesic equation and its numeric solution\<close>

text \<open>
  \<open>compute_geodesic_equation\<close>: a dictionary from each \<open>parameterized_vars[i]\<close> to the
  right-hand side of its second-order equation.
\<close>

definition compute_geodesic_equation ::
  "('e::{comm_ring_1,inverse}, 'v) symbolic_backend \<Rightarrow> ('e, 'v) RiemannGeometry
     \<Rightarrow> error + ('e \<times> 'e) list" where
  "compute_geodesic_equation B self =
     (let n = ndim self; gamma = christoffel_symbols self; pv = parameterized_vars self in
      for_range [0..<n] (\<lambda>i ge.
        bindE (nth_py pv i) (\<lambda>pv_i.
          for_range [0..<n] (\<lambda>j.
            for_range [0..<n] (\<lambda>k ge.
              bindE (nth_py pv i) (\<lambda>pv_i.
              bindE (dict_get ge pv_i) (\<lambda>old.
              bindE (np_get gamma [i, j, k]) (\<lambda>gamma_ijk.
              bindE (nth_py pv j) (\<lambda>pv_j.
              bindE (nth_py pv k) (\<lambda>pv_k.
                Inr (AList.update pv_i
                       (old - gamma_ijk * bk_diff_s B pv_j * bk_diff_s B pv_k) ge))))))))
            (AList.update pv_i 0 ge)))
        [])"

text \<open>\<open>{var.diff(s): symbols(f'{str(var)}_dot') for var in parameterized_vars}\<close>\<close>

definition substitutes_dict :: "('e, 'v) symbolic_backend \<Rightarrow> 'e list \<Rightarrow> ('e \<times> 'v) list" where
  "substitutes_dict B pv = fold (\<lambda>var d. AList.update (bk_diff_s B var) (bk_dot_symbol B var) d) pv []"

text \<open>
  A function made by \<open>lambdify\<close> is kept with the number of its parameters: calling it with
  another number of arguments raises \<open>TypeError\<close>.
\<close>

definition call_lambda :: "nat \<times> ('r list \<Rightarrow> 'r) \<Rightarrow> 'r list \<Rightarrow> error + 'r" where
  "call_lambda f ys = (if length ys = fst f then Inr (snd f ys) else Inl TypeError)"

text \<open>
  \<open>{var: lambdify((*variables, *substitutes.values()), geodesic_equation[var].subs(substitutes))
     for var in parameterized_vars}\<close>
\<close>

definition geodesic_function_dict ::
  "('e, 'v) symbolic_backend \<Rightarrow> ('e, 'v, 'r, 'g, 's) numeric_backend \<Rightarrow> 'v list \<Rightarrow> 'e list
     \<Rightarrow> ('e \<times> 'e) list \<Rightarrow> ('e \<times> 'v) list \<Rightarrow> error + ('e \<times> nat \<times> ('r list \<Rightarrow> 'r)) list" where
  "geodesic_function_dict B N vars pv geodesic_equation substitutes =
     (let args = vars @ map snd substitutes in
      for_range pv (\<lambda>var gf.
        bindE (dict_get geodesic_equation var) (\<lambda>eq.
          Inr (AList.update var (length args, bk_lambdify N args (bk_subs B eq substitutes)) gf)))
        [])"

text \<open>The inner function \<open>func(y, s)\<close> handed to the solver.\<close>

definition func ::
  "nat \<Rightarrow> 'e list \<Rightarrow> ('e \<times> nat \<times> ('r list \<Rightarrow> 'r)) list \<Rightarrow> 'r list \<Rightarrow> 'r \<Rightarrow> error + 'r list" where
  "func n pv geodesic_function y s =
     bindE (list_comp [0..<n] (\<lambda>i. nth_py y (i + n))) (\<lambda>dydt1.
     bindE (list_comp pv (\<lambda>var.
              bindE (dict_get geodesic_function var) (\<lambda>f. call_lambda f y))) (\<lambda>dydt2.
       Inr (dydt1 @ dydt2)))"

text \<open>\<open>[np.random.random() for _ in range(k)]\<close>: \<open>k\<close> draws, the generator state threaded.\<close>

fun random_list :: "('g \<Rightarrow> 'r \<times> 'g) \<Rightarrow> nat \<Rightarrow> 'g \<Rightarrow> 'r list \<times> 'g" where
  "random_list rnd 0 g = ([], g)"
| "random_list rnd (Suc k) g =
     (case rnd g of (r, g1) \<Rightarrow> (case random_list rnd k g1 of (rs, g2) \<Rightarrow> (r # rs, g2)))"

text \<open>\<open>np.linspace(start, stop, num)\<close> in exact arithmetic: \<open>start + i * step\<close> with
  \<open>step = (stop - start) / (num - 1)\<close>.\<close>

definition np_linspace :: "'r::field \<Rightarrow> 'r \<Rightarrow> nat \<Rightarrow> 'r list" where
  "np_linspace start stop num =
     map (\<lambda>i. start + of_nat i * ((stop - start) / of_nat (num - 1))) [0..<num]"

text \<open>The state drawn by \<open>solve_geodesic_equation\<close>: seed the generator, then \<open>2 * ndim\<close> draws.\<close>

definition initial_state ::
  "('e, 'v, 'r, 'g, 's) numeric_backend \<Rightarrow> nat \<Rightarrow> 's \<Rightarrow> 'g \<Rightarrow> 'r list \<times> 'g" where
  "initial_state N n seed rng = random_list (bk_random N) (2 * n) (bk_seed N seed rng)"

text \<open>
  \<open>solve_geodesic_equation(self, seed)\<close>, run with the global generator in state \<open>rng\<close>:
  what the call returns or raises, and the generator state it leaves.
\<close>

definition solve_geodesic_equation ::
  "('e::{comm_ring_1,inverse}, 'v) symbolic_backend \<Rightarrow> ('e, 'v, 'r::field, 'g, 's) numeric_backend
     \<Rightarrow> ('e, 'v) RiemannGeometry \<Rightarrow> 's \<Rightarrow> 'g \<Rightarrow> (error + 'r list list) \<times> 'g" where
  "solve_geodesic_equation B N self seed rng =
     (let rng1 = bk_seed N seed rng;
          n = ndim self in
      case compute_geodesic_equation B self of
        Inl e \<Rightarrow> (Inl e, rng1)
      | Inr geodesic_equation \<Rightarrow>
          (let pv = parameterized_vars self;
               substitutes = substitutes_dict B pv in
           case geodesic_function_dict B N (variables self) pv geodesic_equation substitutes of
             Inl e \<Rightarrow> (Inl e, rng1)
           | Inr geodesic_function \<Rightarrow>
               (case initial_state N n seed rng of
                  (y0, rng2) \<Rightarrow>
                    (bk_odeint N (func n pv geodesic_function) y0 (np_linspace 0 10 1000), rng2))))"

section \<open>The formulas of the design text, and notions used to state the results\<close>

definition upd :: "'a ndarray \<Rightarrow> nat list \<Rightarrow> ('a \<Rightarrow> 'a) \<Rightarrow> 'a ndarray" where
  "upd a idx F = a\<lparr>data := (data a)(idx := F (data a idx))\<rparr>"

definition wf_model :: "('e, 'v, 'z) DifferentialGeometry_scheme \<Rightarrow> bool" where
  "wf_model self \<longleftrightarrow>
     is_square (metric self) \<and> length (metric self) = ndim self \<and>
     is_square (inverse_metric self) \<and> length (inverse_metric self) = ndim self \<and>
     ndim self \<le> length (variables self)"

definition christoffel_summand ::
  "('e::{comm_ring_1,inverse}, 'v) symbolic_backend \<Rightarrow> 'e list list \<Rightarrow> 'e list list \<Rightarrow> 'v list
     \<Rightarrow> nat \<Rightarrow> nat \<Rightarrow> nat \<Rightarrow> nat \<Rightarrow> 'e" where
  "christoffel_summand B g g_inv x rho lamda nu mu =
     g_inv ! rho ! mu *
       (bk_diff B (g ! mu ! nu) (x ! lamda) + bk_diff B (g ! mu ! lamda) (x ! nu)
        - bk_diff B (g ! nu ! lamda) (x ! mu)) / 2"

definition christoffel_formula ::
  "('e::{comm_ring_1,inverse}, 'v) symbolic_backend \<Rightarrow> 'e list list \<Rightarrow> 'e list list \<Rightarrow> 'v list
     \<Rightarrow> nat \<Rightarrow> nat \<Rightarrow> nat \<Rightarrow> 'e" where
  "christoffel_formula B g g_inv x rho lamda nu =
     bk_simplify B (\<Sum>mu<length g. christoffel_summand B g g_inv x rho lamda nu mu)"

definition key3 :: "nat \<times> nat \<times> nat \<Rightarrow> nat list" where
  "key3 p = [fst p, fst (snd p), snd (snd p)]"

definition riemann_formula ::
  "('e::{comm_ring_1,inverse}, 'v) symbolic_backend \<Rightarrow> 'v list \<Rightarrow> nat
     \<Rightarrow> (nat list \<Rightarrow> 'e) \<Rightarrow> nat \<Rightarrow> nat \<Rightarrow> nat \<Rightarrow> nat \<Rightarrow> 'e" where
  "riemann_formula B x n \<Gamma> rho lamda mu nu =
     bk_simplify B
       (bk_diff B (\<Gamma> [rho, lamda, nu]) (x ! mu) - bk_diff B (\<Gamma> [rho, lamda, mu]) (x ! nu)
        + (\<Sum>sigma<n. \<Gamma> [sigma, lamda, nu] * \<Gamma> [rho, sigma, mu]
                         - \<Gamma> [sigma, lamda, mu] * \<Gamma> [rho, sigma, nu]))"

definition ricci_formula ::
  "('e::{comm_ring_1,inverse}, 'v) symbolic_backend \<Rightarrow> nat \<Rightarrow> (nat list \<Rightarrow> 'e) \<Rightarrow> nat \<Rightarrow> nat \<Rightarrow> 'e" where
  "ricci_formula B n R mu nu = bk_simplify B (\<Sum>lamda<n. R [lamda, mu, lamda, nu])"

definition ricci_scalar_formula ::
  "('e::{comm_ring_1,inverse}, 'v) symbolic_backend \<Rightarrow> 'e list list \<Rightarrow> nat \<Rightarrow> (nat list \<Rightarrow> 'e) \<Rightarrow> 'e" where
  "ricci_scalar_formula B g_inv n Ric =
     bk_simplify B (\<Sum>mu<n. \<Sum>nu<n. g_inv ! mu ! nu * Ric [mu, nu])"

definition key4 :: "nat \<times> nat \<times> nat \<times> nat \<Rightarrow> nat list" where
  "key4 p = [fst p, fst (snd p), fst (snd (snd p)), snd (snd (snd p))]"

definition key2 :: "nat \<times> nat \<Rightarrow> nat list" where
  "key2 p = [fst p, snd p]"

text \<open>Construct a RiemannGeometry and read one Christoffel symbol.\<close>

definition christoffel_at ::
  "('e::{comm_ring_1,inverse}, 'v) symbolic_backend \<Rightarrow> 'e list list \<Rightarrow> 'v list \<Rightarrow> nat list \<Rightarrow> error + 'e" where
  "christoffel_at B g x idx =
     bindE (RiemannGeometry_init B g x) (\<lambda>rg. np_get (christoffel_symbols rg) idx)"



text \<open>
  What the claims about equal values ask of the computer-algebra library: differentiation
  by a symbol is additive and obeys the product rule, derivatives by two symbols commute,
  and \<open>simplify\<close> returns a value equal to its argument.
\<close>

definition derivation :: "('e::field_char_0, 'v) symbolic_backend \<Rightarrow> 'v \<Rightarrow> bool" where
  "derivation B v \<longleftrightarrow>
     (\<forall>a b. bk_diff B (a + b) v = bk_diff B a v + bk_diff B b v)
     \<and> (\<forall>a b. bk_diff B (a * b) v = bk_diff B a v * b + a * bk_diff B b v)"

definition commuting :: "('e, 'v) symbolic_backend \<Rightarrow> 'v \<Rightarrow> 'v \<Rightarrow> bool" where
  "commuting B v w \<longleftrightarrow> (\<forall>a. bk_diff B (bk_diff B a v) w = bk_diff B (bk_diff B a w) v)"

definition value_preserving :: "('e, 'v) symbolic_backend \<Rightarrow> bool" where
  "value_preserving B \<longleftrightarrow> (\<forall>e. bk_simplify B e = e)"

text \<open>The inverse and the determinant of a matrix with two rows, as the library must return them.\<close>

definition inverse_2x2 :: "('e::field_char_0) list list \<Rightarrow> 'e list list \<Rightarrow> bool" where
  "inverse_2x2 g g_inv \<longleftrightarrow>
     g ! 0 ! 0 * g_inv ! 0 ! 0 + g ! 0 ! 1 * g_inv ! 1 ! 0 = 1
     \<and> g ! 0 ! 0 * g_inv ! 0 ! 1 + g ! 0 ! 1 * g_inv ! 1 ! 1 = 0
     \<and> g ! 1 ! 0 * g_inv ! 0 ! 0 + g ! 1 ! 1 * g_inv ! 1 ! 0 = 0
     \<and> g ! 1 ! 0 * g_inv ! 0 ! 1 + g ! 1 ! 1 * g_inv ! 1 ! 1 = 1"

definition det_2x2 :: "('e::field_char_0) list list \<Rightarrow> 'e" where
  "det_2x2 g = g ! 0 ! 0 * g ! 1 ! 1 - g ! 0 ! 1 * g ! 1 ! 0"

text \<open>
  The Brioschi formula of \<open>compute_gaussian_curvature\<close> as a function of the coefficients
  \<open>E = g[0][0]\<close>, \<open>F = g[0][1]\<close>, \<open>G = g[1][1]\<close> of the first fundamental form, with the
  determinant \<open>E G - F\<^sup>2\<close> written out.
\<close>

definition brioschi ::
  "('e::field_char_0, 'v) symbolic_backend \<Rightarrow> 'e \<Rightarrow> 'e \<Rightarrow> 'e \<Rightarrow> 'v \<Rightarrow> 'v \<Rightarrow> 'e" where
  "brioschi B E F G x0 x1 =
     (let diff = bk_diff B; det = E * G - F * F;
           first_term = (2 * diff (diff F x0) x1 - diff (diff E x1) x1 - diff (diff G x0) x0) / (2 * det);
           second_term = (diff E x0 * (2 * diff F x1 - diff G x0) - (diff E x1) ^ 2) * G / (4 * det ^ 2);
           third_term = (diff E x0 * diff G x1 - 2 * diff E x1 * diff G x0
                          + (2 * diff F x0 - diff E x1) * (2 * diff F x1 - diff G x0)) * F / (4 * det ^ 2);
           forth_term = (diff G x1 * (2 * diff F x0 - diff E x1) - (diff G x0) ^ 2) * E / (4 * det ^ 2)
       in first_term - second_term + third_term - forth_term)"

section \<open>A concrete collaborator: power series in one coordinate\<close>

text \<open>
  The theorems below hold for every backend.  To run the model on concrete metrics, this
  section builds one: symbolic scalars are formal power series in the coordinate \<open>x\<close>
  with rational coefficients, a commutative ring with the formal derivative; \<open>X\<close> is the
  series of the symbol \<open>x\<close> itself.
\<close>

datatype series = Series (coeff: "nat \<Rightarrow> rat")

instantiation series :: comm_ring_1
begin

definition zero_series :: series where
  "zero_series = Series (\<lambda>_. 0)"

definition one_series :: series where
  "one_series = Series (\<lambda>n. if n = 0 then 1 else 0)"

definition plus_series :: "series \<Rightarrow> series \<Rightarrow> series" where
  "plus_series a b = Series (\<lambda>n. coeff a n + coeff b n)"

definition uminus_series :: "series \<Rightarrow> series" where
  "uminus_series a = Series (\<lambda>n. - coeff a n)"

definition minus_series :: "series \<Rightarrow> series \<Rightarrow> series" where
  "minus_series a b = Series (\<lambda>n. coeff a n - coeff b n)"

definition times_series :: "series \<Rightarrow> series \<Rightarrow> series" where
  "times_series a b = Series (\<lambda>n. \<Sum>i\<le>n. coeff a i * coeff b (n - i))"

instance
proof
  fix a b c :: series
  show "a * b * c = a * (b * c)"
  proof (rule series.expand, rule ext)
    fix n
    have "(\<Sum>i\<le>n. (\<Sum>j\<le>i. coeff a j * coeff b (i - j)) * coeff c (n - i))
        = (\<Sum>(i, j)\<in>(SIGMA i:{..n}. {..i}). coeff a j * coeff b (i - j) * coeff c (n - i))"
      by (simp add: sum_distrib_right sum.Sigma)
    also have "\<dots> = (\<Sum>(j, k)\<in>(SIGMA j:{..n}. {..n - j}). coeff a j * (coeff b k * coeff c (n - j - k)))"
      by (rule sum.reindex_bij_witness[where i = "\<lambda>(j, k). (j + k, j)" and j = "\<lambda>(i, j). (j, i - j)"])
         (auto simp: mult.assoc)
    also have "\<dots> = (\<Sum>j\<le>n. coeff a j * (\<Sum>k\<le>n - j. coeff b k * coeff c (n - j - k)))"
      by (simp add: sum_distrib_left sum.Sigma)
    finally show "coeff (a * b * c) n = coeff (a * (b * c)) n"
      by (simp add: times_series_def)
  qed
  show "a * b = b * a"
  proof (rule series.expand, rule ext)
    fix n
    have "(\<Sum>i\<le>n. coeff a i * coeff b (n - i)) = (\<Sum>i\<le>n. coeff b i * coeff a (n - i))"
      by (rule sum.reindex_bij_witness[where i = "\<lambda>i. n - i" and j = "\<lambda>i. n - i"])
         (auto simp: mult.commute)
    then show "coeff (a * b) n = coeff (b * a) n" by (simp add: times_series_def)
  qed
  show "1 * a = a"
  proof (rule series.expand, rule ext)
    fix n
    have "(\<Sum>i\<le>n. (if i = 0 then 1 else 0) * coeff a (n - i)) = coeff a n"
      by (simp add: if_distrib[of "\<lambda>x. x * _"] sum.delta cong: if_cong)
    then show "coeff (1 * a) n = coeff a n" by (simp add: times_series_def one_series_def)
  qed
  show "(a + b) * c = a * c + b * c"
    by (simp add: times_series_def plus_series_def distrib_right sum.distrib)
  show "a + b + c = a + (b + c)" by (simp add: plus_series_def add.assoc)
  show "a + b = b + a" by (simp add: plus_series_def add.commute)
  show "0 + a = a" by (simp add: plus_series_def zero_series_def)
  show "- a + a = 0" by (simp add: plus_series_def uminus_series_def zero_series_def)
  show "a - b = a + - b" by (simp add: plus_series_def uminus_series_def minus_series_def)
  show "(0::series) \<noteq> 1"
  proof
    assume "(0::series) = 1"
    then have "coeff 0 0 = coeff 1 0" by simp
    then show False by (simp add: zero_series_def one_series_def)
  qed
qed

end

fun recip :: "(nat \<Rightarrow> rat) \<Rightarrow> nat \<Rightarrow> rat" where
  "recip a 0 = inverse (a 0)"
| "recip a (Suc n) = - inverse (a 0) * (\<Sum>i\<le>n. a (Suc i) * recip a (n - i))"

instantiation series :: inverse
begin

definition inverse_series :: "series \<Rightarrow> series" where
  "inverse_series a = Series (recip (coeff a))"

definition divide_series :: "series \<Rightarrow> series \<Rightarrow> series" where
  "divide_series a b = a * inverse b"

instance ..

end

definition series_diff :: "series \<Rightarrow> series" where
  "series_diff a = Series (\<lambda>n. of_nat (Suc n) * coeff a (Suc n))"

definition X :: series where
  "X = Series (\<lambda>n. if n = 1 then 1 else 0)"

text \<open>Determinant and inverse of a matrix with at most two rows, by the closed forms.\<close>

fun det_upto2 :: "('e::{comm_ring_1,inverse}) list list \<Rightarrow> 'e" where
  "det_upto2 [] = 1"
| "det_upto2 [[a]] = a"
| "det_upto2 [[a, b], [c, d]] = a * d - b * c"
| "det_upto2 m = 0"

fun inv_upto2 :: "('e \<Rightarrow> bool) \<Rightarrow> ('e::{comm_ring_1,inverse}) list list \<Rightarrow> 'e list list option" where
  "inv_upto2 is0 [] = Some []"
| "inv_upto2 is0 [[a]] = (if is0 a then None else Some [[1 / a]])"
| "inv_upto2 is0 [[a, b], [c, d]] =
     (if is0 (a * d - b * c) then None
      else Some [[d / (a * d - b * c), - b / (a * d - b * c)],
                 [- c / (a * d - b * c), a / (a * d - b * c)]])"
| "inv_upto2 is0 m = None"

text \<open>
  The series backend: \<open>diff\<close> by \<open>x\<close> is the formal derivative and by any other symbol
  is 0, \<open>simplify\<close> returns its argument, a matrix is singular when the constant
  coefficient of its determinant is 0 (the determinant is then no unit of the ring).
  Expressions are read along the curve \<open>x(s) = s\<close>, \<open>y(s) = 0\<close>, where \<open>d/ds\<close> is the
  formal derivative too.
\<close>

definition series_backend :: "(series, string) symbolic_backend" where
  "series_backend =
     \<lparr>bk_diff = (\<lambda>e v. if v = ''x'' then series_diff e else 0),
      bk_simplify = (\<lambda>e. e),
      bk_simplify_array = (\<lambda>a. a),
      bk_inv = inv_upto2 (\<lambda>a. coeff a 0 = 0),
      bk_det = det_upto2,
      bk_Function = (\<lambda>v. if v = ''x'' then X else 0),
      bk_diff_s = series_diff,
      bk_dot_symbol = (\<lambda>e. if coeff e 1 = 1 then ''x(s)_dot'' else ''y(s)_dot''),
      bk_subs = (\<lambda>e d. e)\<rparr>"

text \<open>
  The backend of constant expressions, over the rationals: every derivative is 0, and a
  matrix is singular when its determinant is 0.  The curve functions are not constants;
  they are represented by 0 and play no part where this backend is used.
\<close>

definition constant_backend :: "(rat, string) symbolic_backend" where
  "constant_backend =
     \<lparr>bk_diff = (\<lambda>e v. 0),
      bk_simplify = (\<lambda>e. e),
      bk_simplify_array = (\<lambda>a. a),
      bk_inv = inv_upto2 (\<lambda>a. a = 0),
      bk_det = det_upto2,
      bk_Function = (\<lambda>v. 0),
      bk_diff_s = (\<lambda>e. 0),
      bk_dot_symbol = (\<lambda>e. ''dot''),
      bk_subs = (\<lambda>e d. e)\<rparr>"

text \<open>
  A numeric collaborator over the rationals.  The generator state is a natural number:
  seeding sets it to the seed, a draw returns its last three decimal digits as a fraction
  of 1000 and steps a linear congruential generator.  A compiled expression returns the
  constant coefficient of the series.  The solver takes explicit Euler steps between
  consecutive sample times.
\<close>

fun euler :: "('r::field list \<Rightarrow> 'r \<Rightarrow> error + 'r list) \<Rightarrow> 'r list \<Rightarrow> 'r list \<Rightarrow> error + 'r list list" where
  "euler f y [] = Inr []"
| "euler f y [t] = Inr [y]"
| "euler f y (t # t' # ts) =
     bindE (f y t) (\<lambda>d.
     bindE (euler f (map2 (\<lambda>a b. a + (t' - t) * b) y d) (t' # ts)) (\<lambda>rest.
       Inr (y # rest)))"

definition example_numeric :: "(series, string, rat, nat, nat) numeric_backend" where
  "example_numeric =
     \<lparr>bk_seed = (\<lambda>s g. s),
      bk_random = (\<lambda>g. (of_nat (g mod 1000) / 1000, (g * 75 + 74) mod 65537)),
      bk_lambdify = (\<lambda>args e ys. coeff e 0),
      bk_odeint = euler\<rparr>"

text \<open>
  A model of the plane with the identity metric on two coordinates: every tensor is
  zero.
\<close>

definition flat_plane :: "(series, string) RiemannGeometry" where
  "flat_plane =
     \<lparr>metric = [[1, 0], [0, 1]], inverse_metric = [[1, 0], [0, 1]], det = 1, ndim = 2,
      variables = [''x'', ''y''], parameterized_vars = [X, 0],
      christoffel_symbols = np_zeros [2, 2, 2],
      riemann_curvature_tensor = np_zeros [2, 2, 2, 2],
      ricci_tensor = np_zeros [2, 2],
      ricci_scalar = 0,
      einstein_tensor = np_zeros [2, 2]\<rparr>"

section \<open>The loops compute the formulas\<close>

lemma bindE_Inr [simp]: "bindE (Inr x) f = f x" by (simp add: bindE_def)
lemma bindE_Inl [simp]: "bindE (Inl e) f = Inl e" by (simp add: bindE_def)

lemma shape_upd [simp]: "shape (upd a idx F) = shape a" by (simp add: upd_def)
lemma data_upd_same [simp]: "data (upd a idx F) idx = F (data a idx)" by (simp add: upd_def)
lemma data_upd_other [simp]: "k \<noteq> idx \<Longrightarrow> data (upd a idx F) k = data a k" by (simp add: upd_def)
lemma upd_upd: "upd (upd a idx F) idx G = upd a idx (G \<circ> F)" by (simp add: upd_def)

lemma for_range_pure:
  assumes "\<And>i s. i \<in> set xs \<Longrightarrow> P s \<Longrightarrow> body i s = Inr (f i s) \<and> P (f i s)" and "P s"
  shows "for_range xs body s = Inr (fold f xs s) \<and> P (fold f xs s)"
  using assms by (induction xs arbitrary: s) auto

lemma fold_product:
  "fold (\<lambda>x. fold (f x) ys) xs s = fold (\<lambda>p. f (fst p) (snd p)) (List.product xs ys) s"
  by (induction xs arbitrary: s) (simp_all add: fold_map comp_def)

lemma fold_upd_shape [simp]: "shape (fold (\<lambda>i a. upd a (key i) (F i)) xs a) = shape a"
  by (induction xs arbitrary: a) simp_all

lemma fold_upd_other:
  "k \<notin> key ` set xs \<Longrightarrow> data (fold (\<lambda>i a. upd a (key i) (F i)) xs a) k = data a k"
  by (induction xs arbitrary: a) auto

lemma fold_upd_hit:
  "distinct xs \<Longrightarrow> inj_on key (set xs) \<Longrightarrow> i \<in> set xs \<Longrightarrow>
   data (fold (\<lambda>i a. upd a (key i) (F i)) xs a) (key i) = F i (data a (key i))"
proof (induction xs arbitrary: a)
  case Nil then show ?case by simp
next
  case (Cons x xs)
  show ?case
  proof (cases "i = x")
    case True
    have "key x \<notin> key ` set xs" using Cons.prems by (auto simp: inj_on_def)
    then show ?thesis using True by (simp add: fold_upd_other)
  next
    case False
    then have i: "i \<in> set xs" using Cons.prems by simp
    have "key i \<noteq> key x" using Cons.prems False i by (auto simp: inj_on_def)
    then show ?thesis using Cons.IH[of "upd a (key x) (F x)"] Cons.prems i by (simp add: inj_on_def)
  qed
qed

lemma fold_iadd:
  "fold (\<lambda>i a. upd a idx (\<lambda>old. old + t i)) xs a = upd a idx (\<lambda>old. old + sum_list (map t xs))" for t :: "'i \<Rightarrow> 'a::comm_monoid_add"
proof (induction xs arbitrary: a)
  case Nil show ?case by (simp add: upd_def)
next
  case (Cons x xs) show ?case by (simp add: Cons upd_upd comp_def add.assoc)
qed

lemma np_get_in [simp]: "in_shape a idx \<Longrightarrow> np_get a idx = Inr (data a idx)" by (simp add: np_get_def)
lemma np_set_in [simp]: "in_shape a idx \<Longrightarrow> np_set a idx v = Inr (upd a idx (\<lambda>_. v))" by (simp add: np_set_def upd_def)
lemma in_shape_upd [simp]: "in_shape (upd a idx F) k = in_shape a k" by (simp add: in_shape_def)

lemma iadd_in: "in_shape a idx \<Longrightarrow> iadd a idx (Inr t) = Inr (upd a idx (\<lambda>old. old + t))"
  by (simp add: iadd_def upd_def np_set_def)

text \<open>accumulating loop\<close>
lemma for_range_iadd:
  fixes t :: "'i \<Rightarrow> 'a::comm_monoid_add"
  assumes "in_shape a idx" and "\<And>i. i \<in> set xs \<Longrightarrow> rhs i = Inr (t i)"
  shows "for_range xs (\<lambda>i a. iadd a idx (rhs i)) a = Inr (upd a idx (\<lambda>old. old + sum_list (map t xs)))"
proof -
  have "for_range xs (\<lambda>i a. iadd a idx (rhs i)) a = Inr (fold (\<lambda>i a. upd a idx (\<lambda>old. old + t i)) xs a)
        \<and> in_shape (fold (\<lambda>i a. upd a idx (\<lambda>old. old + t i)) xs a) idx"
    by (rule for_range_pure[where P = "\<lambda>a. in_shape a idx"]) (simp_all add: assms iadd_in)
  then show ?thesis by (simp add: fold_iadd)
qed

lemma mget_square: "is_square m \<Longrightarrow> i < length m \<Longrightarrow> j < length m \<Longrightarrow> mget m i j = Inr (m ! i ! j)"
  by (simp add: mget_def is_square_def list_all_length)

lemma nth_py_in: "i < length xs \<Longrightarrow> nth_py xs i = Inr (xs ! i)"
  by (simp add: nth_py_def)

lemma christoffel_term_ok:
  assumes "wf_model self" "rho < ndim self" "lamda < ndim self" "nu < ndim self" "mu < ndim self"
  shows "christoffel_term B self rho lamda nu mu = Inr (christoffel_summand B (metric self) (inverse_metric self) (variables self) rho lamda nu mu)"
  using assms unfolding christoffel_term_def christoffel_summand_def wf_model_def
  by (simp add: mget_square nth_py_in)

lemma in_shape3: "shape a = [n, n, n] \<Longrightarrow> in_shape a [i, j, k] \<longleftrightarrow> i < n \<and> j < n \<and> k < n"
  by (simp add: in_shape_def)

lemma in_shape2: "shape a = [n, n] \<Longrightarrow> in_shape a [i, j] \<longleftrightarrow> i < n \<and> j < n"
  by (simp add: in_shape_def)

lemma in_shape4: "shape a = [n, n, n, n] \<Longrightarrow> in_shape a [i, j, k, l] \<longleftrightarrow> i < n \<and> j < n \<and> k < n \<and> l < n"
  by (simp add: in_shape_def)

lemma sum_list_upt: "sum_list (map t [0..<n]) = (\<Sum>i<n. t i)" for t :: "nat \<Rightarrow> 'a::comm_monoid_add"
  by (simp add: interv_sum_list_conv_sum_set_nat atLeast0LessThan)

lemma christoffel_entry:
  assumes wf: "wf_model self" and sh: "shape cs = [ndim self, ndim self, ndim self]"
    and r: "rho < ndim self" "lamda < ndim self" "nu < ndim self"
  shows "bindE (for_range [0..<ndim self] (\<lambda>mu cs.
                     iadd cs [rho, lamda, nu] (christoffel_term B self rho lamda nu mu)) cs) (\<lambda>cs.
            bindE (np_get cs [rho, lamda, nu]) (\<lambda>v.
              np_set cs [rho, lamda, nu] (bk_simplify B v)))
         = Inr (upd cs [rho, lamda, nu] (\<lambda>old. bk_simplify B (old + (\<Sum>mu<ndim self. christoffel_summand B (metric self) (inverse_metric self) (variables self) rho lamda nu mu))))"
proof -
  have ins: "in_shape cs [rho, lamda, nu]" using sh r by (simp add: in_shape3)
  have step: "for_range [0..<ndim self] (\<lambda>mu cs. iadd cs [rho, lamda, nu] (christoffel_term B self rho lamda nu mu)) cs
        = Inr (upd cs [rho, lamda, nu] (\<lambda>old. old + sum_list (map (christoffel_summand B (metric self) (inverse_metric self) (variables self) rho lamda nu) [0..<ndim self])))"
    by (rule for_range_iadd[OF ins]) (simp add: christoffel_term_ok[OF wf r])
  show ?thesis unfolding step using ins by (simp add: sum_list_upt) (simp add: upd_def)
qed

lemma fold_product3:
  "fold (\<lambda>x. fold (\<lambda>y. fold (f x y) zs) ys) xs s
   = fold (\<lambda>p. f (fst p) (fst (snd p)) (snd (snd p))) (List.product xs (List.product ys zs)) s"
  by (induction xs arbitrary: s) (simp_all add: fold_map comp_def fold_product)

lemma fold_product4:
  "fold (\<lambda>w. fold (\<lambda>x. fold (\<lambda>y. fold (f w x y) zs) ys) xs) ws s
   = fold (\<lambda>p. f (fst p) (fst (snd p)) (fst (snd (snd p))) (snd (snd (snd p))))
       (List.product ws (List.product xs (List.product ys zs))) s"
  by (induction ws arbitrary: s) (simp_all add: fold_map comp_def fold_product3)

lemma distinct_triples: "distinct (List.product [0..<n] (List.product [0..<n] [0..<n]))"
  by (simp add: distinct_product)

lemma inj_key3: "inj_on key3 A"
  by (auto simp: inj_on_def key3_def prod_eq_iff)

lemma compute_christoffel_symbols_ok:
  assumes wf: "wf_model self"
  shows "\<exists>cs. compute_christoffel_symbols B self = Inr cs \<and> shape cs = [ndim self, ndim self, ndim self]
     \<and> (\<forall>rho<ndim self. \<forall>lamda<ndim self. \<forall>nu<ndim self.
          data cs [rho, lamda, nu] = christoffel_formula B (metric self) (inverse_metric self) (variables self) rho lamda nu)"
proof -
  let ?n = "ndim self"
  let ?P = "\<lambda>a::'a ndarray. shape a = [?n, ?n, ?n]"
  let ?F = "\<lambda>rho lamda nu old. bk_simplify B (old + (\<Sum>mu<?n. christoffel_summand B (metric self) (inverse_metric self) (variables self) rho lamda nu mu))"
  let ?f3 = "\<lambda>rho lamda nu a. upd a [rho, lamda, nu] (?F rho lamda nu)"
  let ?body3 = "\<lambda>rho lamda nu cs. bindE (for_range [0..<?n] (\<lambda>mu cs.
                     iadd cs [rho, lamda, nu] (christoffel_term B self rho lamda nu mu)) cs) (\<lambda>cs.
            bindE (np_get cs [rho, lamda, nu]) (\<lambda>v.
              np_set cs [rho, lamda, nu] (bk_simplify B v)))"
  have l3: "for_range [0..<?n] (?body3 rho lamda) a = Inr (fold (?f3 rho lamda) [0..<?n] a) \<and> ?P (fold (?f3 rho lamda) [0..<?n] a)"
    if "rho < ?n" "lamda < ?n" "?P a" for rho lamda a
    by (rule for_range_pure[where P = ?P]) (use that in \<open>simp_all add: christoffel_entry[OF wf]\<close>)
  have l2: "for_range [0..<?n] (\<lambda>lamda. for_range [0..<?n] (?body3 rho lamda)) a
            = Inr (fold (\<lambda>lamda. fold (?f3 rho lamda) [0..<?n]) [0..<?n] a)
            \<and> ?P (fold (\<lambda>lamda. fold (?f3 rho lamda) [0..<?n]) [0..<?n] a)"
    if "rho < ?n" "?P a" for rho a
    by (rule for_range_pure[where P = ?P]) (use that l3 in simp_all)
  have l1: "for_range [0..<?n] (\<lambda>rho. for_range [0..<?n] (\<lambda>lamda. for_range [0..<?n] (?body3 rho lamda))) a
            = Inr (fold (\<lambda>rho. fold (\<lambda>lamda. fold (?f3 rho lamda) [0..<?n]) [0..<?n]) [0..<?n] a)
            \<and> ?P (fold (\<lambda>rho. fold (\<lambda>lamda. fold (?f3 rho lamda) [0..<?n]) [0..<?n]) [0..<?n] a)"
    if "?P a" for a
    by (rule for_range_pure[where P = ?P]) (use that l2 in simp_all)
  let ?ts = "List.product [0..<?n] (List.product [0..<?n] [0..<?n])"
  let ?G = "\<lambda>p. ?F (fst p) (fst (snd p)) (snd (snd p))"
  have flat: "fold (\<lambda>rho. fold (\<lambda>lamda. fold (?f3 rho lamda) [0..<?n]) [0..<?n]) [0..<?n] a
        = fold (\<lambda>p a. upd a (key3 p) (?G p)) ?ts a" for a
    by (simp add: fold_product3 key3_def)
  let ?z = "np_zeros [?n, ?n, ?n] :: 'a ndarray"
  have z: "?P ?z" by (simp add: np_zeros_def)
  let ?cs = "fold (\<lambda>p a. upd a (key3 p) (?G p)) ?ts ?z"
  have res: "compute_christoffel_symbols B self = Inr ?cs" and sh: "?P ?cs"
    using l1[OF z] unfolding compute_christoffel_symbols_def Let_def flat by simp_all
  have ent: "data ?cs [rho, lamda, nu] = christoffel_formula B (metric self) (inverse_metric self) (variables self) rho lamda nu"
    if "rho < ?n" "lamda < ?n" "nu < ?n" for rho lamda nu
  proof -
    have mem: "(rho, lamda, nu) \<in> set ?ts" using that by simp
    have "data ?cs (key3 (rho, lamda, nu)) = ?G (rho, lamda, nu) (data ?z (key3 (rho, lamda, nu)))"
      by (rule fold_upd_hit[OF distinct_triples inj_key3 mem])
    then show ?thesis using wf by (simp add: key3_def np_zeros_def christoffel_formula_def wf_model_def)
  qed
  show ?thesis using res sh ent by blast
qed

lemma inj_key4: "inj_on key4 A"
  by (auto simp: inj_on_def key4_def prod_eq_iff)

lemma inj_key2: "inj_on key2 A"
  by (auto simp: inj_on_def key2_def prod_eq_iff)

lemma riemann_product_term_ok:
  assumes "shape gamma = [n, n, n]" "rho < n" "lamda < n" "mu < n" "nu < n" "sigma < n"
  shows "riemann_product_term gamma rho lamda mu nu sigma
         = Inr (- data gamma [sigma, lamda, mu] * data gamma [rho, sigma, nu]
                + data gamma [sigma, lamda, nu] * data gamma [rho, sigma, mu])"
  using assms unfolding riemann_product_term_def by (simp add: in_shape3)

lemma riemann_derivative_term_ok:
  assumes "wf_model self" "shape gamma = [ndim self, ndim self, ndim self]"
    "rho < ndim self" "lamda < ndim self" "mu < ndim self" "nu < ndim self"
  shows "riemann_derivative_term B self gamma rho lamda mu nu
         = Inr (- bk_diff B (data gamma [rho, lamda, mu]) (variables self ! nu)
                + bk_diff B (data gamma [rho, lamda, nu]) (variables self ! mu))"
  using assms unfolding riemann_derivative_term_def wf_model_def by (simp add: in_shape3 nth_py_in)

lemma riemann_entry:
  assumes wf: "wf_model self" and g: "shape gamma = [ndim self, ndim self, ndim self]"
    and sh: "shape rt = [ndim self, ndim self, ndim self, ndim self]"
    and r: "rho < ndim self" "lamda < ndim self" "mu < ndim self" "nu < ndim self"
  shows "bindE (for_range [0..<ndim self] (\<lambda>sigma rt.
                       iadd rt [rho, lamda, mu, nu]
                         (riemann_product_term gamma rho lamda mu nu sigma)) rt) (\<lambda>rt.
              bindE (iadd rt [rho, lamda, mu, nu]
                       (riemann_derivative_term B self gamma rho lamda mu nu)) (\<lambda>rt.
              bindE (np_get rt [rho, lamda, mu, nu]) (\<lambda>v.
                np_set rt [rho, lamda, mu, nu] (bk_simplify B v))))
         = Inr (upd rt [rho, lamda, mu, nu] (\<lambda>old. bk_simplify B (old
              + (\<Sum>sigma<ndim self. - data gamma [sigma, lamda, mu] * data gamma [rho, sigma, nu]
                + data gamma [sigma, lamda, nu] * data gamma [rho, sigma, mu])
              + (- bk_diff B (data gamma [rho, lamda, mu]) (variables self ! nu)
                + bk_diff B (data gamma [rho, lamda, nu]) (variables self ! mu)))))"
proof -
  have ins: "in_shape rt [rho, lamda, mu, nu]" using sh r by (simp add: in_shape4)
  have step: "for_range [0..<ndim self] (\<lambda>sigma rt. iadd rt [rho, lamda, mu, nu] (riemann_product_term gamma rho lamda mu nu sigma)) rt
        = Inr (upd rt [rho, lamda, mu, nu] (\<lambda>old. old + sum_list (map (\<lambda>sigma.
               - data gamma [sigma, lamda, mu] * data gamma [rho, sigma, nu]
                + data gamma [sigma, lamda, nu] * data gamma [rho, sigma, mu]) [0..<ndim self])))"
    by (rule for_range_iadd[OF ins]) (simp add: riemann_product_term_ok[OF g r])
  show ?thesis unfolding step riemann_derivative_term_ok[OF wf g r] using ins
    by (simp add: sum_list_upt iadd_in) (simp add: upd_def)
qed

lemma distinct_quadruples:
  "distinct (List.product [0..<n] (List.product [0..<n] (List.product [0..<n] [0..<n])))"
  by (simp add: distinct_product)

lemma compute_riemann_curvature_tensor_code:
  assumes wf: "wf_model self" and g: "shape gamma = [ndim self, ndim self, ndim self]"
  shows "\<exists>rt. compute_riemann_curvature_tensor B self gamma = Inr rt
     \<and> shape rt = [ndim self, ndim self, ndim self, ndim self]
     \<and> (\<forall>rho<ndim self. \<forall>lamda<ndim self. \<forall>mu<ndim self. \<forall>nu<ndim self.
          data rt [rho, lamda, mu, nu] = bk_simplify B (0
              + (\<Sum>sigma<ndim self. - data gamma [sigma, lamda, mu] * data gamma [rho, sigma, nu]
                + data gamma [sigma, lamda, nu] * data gamma [rho, sigma, mu])
              + (- bk_diff B (data gamma [rho, lamda, mu]) (variables self ! nu)
                + bk_diff B (data gamma [rho, lamda, nu]) (variables self ! mu))))"
proof -
  let ?n = "ndim self"
  let ?P = "\<lambda>a::'a ndarray. shape a = [?n, ?n, ?n, ?n]"
  let ?F = "\<lambda>rho lamda mu nu old. bk_simplify B (old
              + (\<Sum>sigma<ndim self. - data gamma [sigma, lamda, mu] * data gamma [rho, sigma, nu]
                + data gamma [sigma, lamda, nu] * data gamma [rho, sigma, mu])
              + (- bk_diff B (data gamma [rho, lamda, mu]) (variables self ! nu)
                + bk_diff B (data gamma [rho, lamda, nu]) (variables self ! mu)))"
  let ?f4 = "\<lambda>rho lamda mu nu a. upd a [rho, lamda, mu, nu] (?F rho lamda mu nu)"
  let ?body4 = "\<lambda>rho lamda mu nu rt. bindE (for_range [0..<ndim self] (\<lambda>sigma rt.
                       iadd rt [rho, lamda, mu, nu]
                         (riemann_product_term gamma rho lamda mu nu sigma)) rt) (\<lambda>rt.
              bindE (iadd rt [rho, lamda, mu, nu]
                       (riemann_derivative_term B self gamma rho lamda mu nu)) (\<lambda>rt.
              bindE (np_get rt [rho, lamda, mu, nu]) (\<lambda>v.
                np_set rt [rho, lamda, mu, nu] (bk_simplify B v))))"
  have l4: "for_range [0..<?n] (?body4 rho lamda mu) a = Inr (fold (?f4 rho lamda mu) [0..<?n] a)
            \<and> ?P (fold (?f4 rho lamda mu) [0..<?n] a)"
    if "rho < ?n" "lamda < ?n" "mu < ?n" "?P a" for rho lamda mu a
    by (rule for_range_pure[where P = ?P]) (use that in \<open>simp_all add: riemann_entry[OF wf g]\<close>)
  have l3: "for_range [0..<?n] (\<lambda>mu. for_range [0..<?n] (?body4 rho lamda mu)) a
            = Inr (fold (\<lambda>mu. fold (?f4 rho lamda mu) [0..<?n]) [0..<?n] a)
            \<and> ?P (fold (\<lambda>mu. fold (?f4 rho lamda mu) [0..<?n]) [0..<?n] a)"
    if "rho < ?n" "lamda < ?n" "?P a" for rho lamda a
    by (rule for_range_pure[where P = ?P]) (use that l4 in simp_all)
  have l2: "for_range [0..<?n] (\<lambda>lamda. for_range [0..<?n] (\<lambda>mu. for_range [0..<?n] (?body4 rho lamda mu))) a
            = Inr (fold (\<lambda>lamda. fold (\<lambda>mu. fold (?f4 rho lamda mu) [0..<?n]) [0..<?n]) [0..<?n] a)
            \<and> ?P (fold (\<lambda>lamda. fold (\<lambda>mu. fold (?f4 rho lamda mu) [0..<?n]) [0..<?n]) [0..<?n] a)"
    if "rho < ?n" "?P a" for rho a
    by (rule for_range_pure[where P = ?P]) (use that l3 in simp_all)
  have l1: "for_range [0..<?n] (\<lambda>rho. for_range [0..<?n] (\<lambda>lamda. for_range [0..<?n] (\<lambda>mu. for_range [0..<?n] (?body4 rho lamda mu)))) a
            = Inr (fold (\<lambda>rho. fold (\<lambda>lamda. fold (\<lambda>mu. fold (?f4 rho lamda mu) [0..<?n]) [0..<?n]) [0..<?n]) [0..<?n] a)
            \<and> ?P (fold (\<lambda>rho. fold (\<lambda>lamda. fold (\<lambda>mu. fold (?f4 rho lamda mu) [0..<?n]) [0..<?n]) [0..<?n]) [0..<?n] a)"
    if "?P a" for a
    by (rule for_range_pure[where P = ?P]) (use that l2 in simp_all)
  let ?ts = "List.product [0..<?n] (List.product [0..<?n] (List.product [0..<?n] [0..<?n]))"
  let ?G = "\<lambda>p. ?F (fst p) (fst (snd p)) (fst (snd (snd p))) (snd (snd (snd p)))"
  have flat: "fold (\<lambda>rho. fold (\<lambda>lamda. fold (\<lambda>mu. fold (?f4 rho lamda mu) [0..<?n]) [0..<?n]) [0..<?n]) [0..<?n] a
        = fold (\<lambda>p a. upd a (key4 p) (?G p)) ?ts a" for a
    by (simp add: fold_product4 key4_def)
  let ?z = "np_zeros [?n, ?n, ?n, ?n] :: 'a ndarray"
  have z: "?P ?z" by (simp add: np_zeros_def)
  let ?rt = "fold (\<lambda>p a. upd a (key4 p) (?G p)) ?ts ?z"
  have res: "compute_riemann_curvature_tensor B self gamma = Inr ?rt" and sh: "?P ?rt"
    using l1[OF z] unfolding compute_riemann_curvature_tensor_def Let_def flat by simp_all
  have ent: "data ?rt [rho, lamda, mu, nu] = ?F rho lamda mu nu 0"
    if "rho < ?n" "lamda < ?n" "mu < ?n" "nu < ?n" for rho lamda mu nu
  proof -
    have mem: "(rho, lamda, mu, nu) \<in> set ?ts" using that by simp
    have "data ?rt (key4 (rho, lamda, mu, nu)) = ?G (rho, lamda, mu, nu) (data ?z (key4 (rho, lamda, mu, nu)))"
      by (rule fold_upd_hit[OF distinct_quadruples inj_key4 mem])
    then show ?thesis by (simp add: key4_def np_zeros_def)
  qed
  show ?thesis using res sh ent by blast
qed

lemma riemann_code_eq_formula:
  fixes \<Gamma> :: "nat list \<Rightarrow> 'e::{comm_ring_1,inverse}"
  shows "bk_simplify B (0
              + (\<Sum>sigma<ndim self. - \<Gamma> [sigma, lamda, mu] * \<Gamma> [rho, sigma, nu]
                + \<Gamma> [sigma, lamda, nu] * \<Gamma> [rho, sigma, mu])
              + (- bk_diff B (\<Gamma> [rho, lamda, mu]) (variables self ! nu)
                + bk_diff B (\<Gamma> [rho, lamda, nu]) (variables self ! mu)))
         = riemann_formula B (variables self) (ndim self) \<Gamma> rho lamda mu nu"
proof -
  have "(\<Sum>sigma<ndim self. - \<Gamma> [sigma, lamda, mu] * \<Gamma> [rho, sigma, nu]
                + \<Gamma> [sigma, lamda, nu] * \<Gamma> [rho, sigma, mu])
      = (\<Sum>sigma<ndim self. \<Gamma> [sigma, lamda, nu] * \<Gamma> [rho, sigma, mu]
                               - \<Gamma> [sigma, lamda, mu] * \<Gamma> [rho, sigma, nu])"
    by (rule sum.cong) simp_all
  then show ?thesis unfolding riemann_formula_def by (simp add: algebra_simps)
qed

lemma compute_riemann_curvature_tensor_ok:
  assumes wf: "wf_model self" and g: "shape gamma = [ndim self, ndim self, ndim self]"
  shows "\<exists>rt. compute_riemann_curvature_tensor B self gamma = Inr rt
     \<and> shape rt = [ndim self, ndim self, ndim self, ndim self]
     \<and> (\<forall>rho<ndim self. \<forall>lamda<ndim self. \<forall>mu<ndim self. \<forall>nu<ndim self.
          data rt [rho, lamda, mu, nu] = riemann_formula B (variables self) (ndim self) (data gamma) rho lamda mu nu)"
  using compute_riemann_curvature_tensor_code[OF wf g, of B]
  unfolding riemann_code_eq_formula by blast

lemma distinct_pairs: "distinct (List.product [0..<n] [0..<n])"
  by (simp add: distinct_product)

lemma ricci_entry:
  assumes r: "shape riemann = [n, n, n, n]" and sh: "shape rc = [n, n]" and i: "mu < n" "nu < n"
  shows "bindE (for_range [0..<n] (\<lambda>lamda rc.
                   iadd rc [mu, nu] (np_get riemann [lamda, mu, lamda, nu])) rc) (\<lambda>rc.
          bindE (np_get rc [mu, nu]) (\<lambda>v.
            np_set rc [mu, nu] (bk_simplify B v)))
         = Inr (upd rc [mu, nu] (\<lambda>old. bk_simplify B (old + (\<Sum>lamda<n. data riemann [lamda, mu, lamda, nu]))))"
proof -
  have ins: "in_shape rc [mu, nu]" using sh i by (simp add: in_shape2)
  have step: "for_range [0..<n] (\<lambda>lamda rc. iadd rc [mu, nu] (np_get riemann [lamda, mu, lamda, nu])) rc
        = Inr (upd rc [mu, nu] (\<lambda>old. old + sum_list (map (\<lambda>lamda. data riemann [lamda, mu, lamda, nu]) [0..<n])))"
    by (rule for_range_iadd[OF ins]) (simp add: in_shape4[OF r] i)
  show ?thesis unfolding step using ins
    by (simp add: sum_list_upt) (simp add: upd_def)
qed

lemma compute_ricci_tensor_ok:
  assumes r: "shape riemann = [ndim self, ndim self, ndim self, ndim self]"
  shows "\<exists>rc. compute_ricci_tensor B self riemann = Inr rc \<and> shape rc = [ndim self, ndim self]
     \<and> (\<forall>mu<ndim self. \<forall>nu<ndim self.
          data rc [mu, nu] = ricci_formula B (ndim self) (data riemann) mu nu)"
proof -
  let ?n = "ndim self"
  let ?P = "\<lambda>a::'a ndarray. shape a = [?n, ?n]"
  let ?F = "\<lambda>mu nu old. bk_simplify B (old + (\<Sum>lamda<?n. data riemann [lamda, mu, lamda, nu]))"
  let ?f2 = "\<lambda>mu nu a. upd a [mu, nu] (?F mu nu)"
  let ?body2 = "\<lambda>mu nu rc. bindE (for_range [0..<?n] (\<lambda>lamda rc.
                   iadd rc [mu, nu] (np_get riemann [lamda, mu, lamda, nu])) rc) (\<lambda>rc.
          bindE (np_get rc [mu, nu]) (\<lambda>v.
            np_set rc [mu, nu] (bk_simplify B v)))"
  have l2: "for_range [0..<?n] (?body2 mu) a = Inr (fold (?f2 mu) [0..<?n] a)
            \<and> ?P (fold (?f2 mu) [0..<?n] a)"
    if "mu < ?n" "?P a" for mu a
    by (rule for_range_pure[where P = ?P]) (use that in \<open>simp_all add: ricci_entry[OF r]\<close>)
  have l1: "for_range [0..<?n] (\<lambda>mu. for_range [0..<?n] (?body2 mu)) a
            = Inr (fold (\<lambda>mu. fold (?f2 mu) [0..<?n]) [0..<?n] a)
            \<and> ?P (fold (\<lambda>mu. fold (?f2 mu) [0..<?n]) [0..<?n] a)"
    if "?P a" for a
    by (rule for_range_pure[where P = ?P]) (use that l2 in simp_all)
  let ?ts = "List.product [0..<?n] [0..<?n]"
  let ?G = "\<lambda>p. ?F (fst p) (snd p)"
  have flat: "fold (\<lambda>mu. fold (?f2 mu) [0..<?n]) [0..<?n] a
        = fold (\<lambda>p a. upd a (key2 p) (?G p)) ?ts a" for a
    by (simp add: fold_product key2_def)
  let ?z = "np_zeros [?n, ?n] :: 'a ndarray"
  have z: "?P ?z" by (simp add: np_zeros_def)
  let ?rc = "fold (\<lambda>p a. upd a (key2 p) (?G p)) ?ts ?z"
  have res: "compute_ricci_tensor B self riemann = Inr ?rc" and sh: "?P ?rc"
    using l1[OF z] unfolding compute_ricci_tensor_def Let_def flat by simp_all
  have ent: "data ?rc [mu, nu] = ricci_formula B ?n (data riemann) mu nu"
    if "mu < ?n" "nu < ?n" for mu nu
  proof -
    have mem: "(mu, nu) \<in> set ?ts" using that by simp
    have "data ?rc (key2 (mu, nu)) = ?G (mu, nu) (data ?z (key2 (mu, nu)))"
      by (rule fold_upd_hit[OF distinct_pairs inj_key2 mem])
    then show ?thesis by (simp add: key2_def np_zeros_def ricci_formula_def)
  qed
  show ?thesis using res sh ent by blast
qed

lemma fold_acc:
  "fold (\<lambda>i s. s + t i) xs s = s + sum_list (map t xs)" for t :: "'i \<Rightarrow> 'a::comm_monoid_add"
  by (induction xs arbitrary: s) (simp_all add: add.assoc)

lemma compute_ricci_scalar_ok:
  assumes wf: "wf_model self" and r: "shape ricci = [ndim self, ndim self]"
  shows "compute_ricci_scalar B self ricci
         = Inr (ricci_scalar_formula B (inverse_metric self) (ndim self) (data ricci))"
proof -
  let ?n = "ndim self"
  let ?t = "\<lambda>mu nu. inverse_metric self ! mu ! nu * data ricci [mu, nu]"
  let ?body = "\<lambda>mu nu rs. bindE (mget (inverse_metric self) mu nu) (\<lambda>inv_g_mu_nu.
                 bindE (np_get ricci [mu, nu]) (\<lambda>ricci_mu_nu.
                   Inr (rs + inv_g_mu_nu * ricci_mu_nu)))"
  have sq: "is_square (inverse_metric self)" "length (inverse_metric self) = ?n"
    using wf by (simp_all add: wf_model_def)
  have l2: "for_range [0..<?n] (?body mu) s = Inr (fold (\<lambda>nu s. s + ?t mu nu) [0..<?n] s) \<and> True"
    if "mu < ?n" for mu s
    by (rule for_range_pure[where P = "\<lambda>_. True"])
       (use that in \<open>simp_all add: mget_square[OF sq(1)] sq(2) in_shape2[OF r]\<close>)
  have l1: "for_range [0..<?n] (\<lambda>mu. for_range [0..<?n] (?body mu)) s
        = Inr (fold (\<lambda>mu s. s + (\<Sum>nu<?n. ?t mu nu)) [0..<?n] s) \<and> True" for s
    by (rule for_range_pure[where P = "\<lambda>_. True"]) (simp_all add: l2 fold_acc sum_list_upt)
  show ?thesis
    unfolding compute_ricci_scalar_def Let_def ricci_scalar_formula_def
    by (simp add: l1 fold_acc sum_list_upt)
qed

lemma compute_einstein_tensor_ok:
  assumes wf: "wf_model self" and r: "shape ricci = [ndim self, ndim self]"
  shows "\<exists>et. compute_einstein_tensor B self ricci rs = Inr et"
proof -
  let ?n = "ndim self"
  let ?P = "\<lambda>a::'a ndarray. shape a = [?n, ?n]"
  let ?f = "\<lambda>mu nu et. upd et [mu, nu] (\<lambda>_. data ricci [mu, nu] - (1 / 2) * rs * (metric self ! mu ! nu))"
  let ?body = "\<lambda>mu nu et. bindE (np_get ricci [mu, nu]) (\<lambda>ricci_mu_nu.
                 bindE (mget (metric self) mu nu) (\<lambda>g_mu_nu.
                   np_set et [mu, nu] (ricci_mu_nu - (1 / 2) * rs * g_mu_nu)))"
  have sq: "is_square (metric self)" "length (metric self) = ?n"
    using wf by (simp_all add: wf_model_def)
  have l2: "for_range [0..<?n] (?body mu) a = Inr (fold (?f mu) [0..<?n] a) \<and> ?P (fold (?f mu) [0..<?n] a)"
    if "mu < ?n" "?P a" for mu a
    by (rule for_range_pure[where P = ?P])
       (use that in \<open>simp_all add: mget_square[OF sq(1)] sq(2) in_shape2[OF r] in_shape2\<close>)
  have l1: "for_range [0..<?n] (\<lambda>mu. for_range [0..<?n] (?body mu)) a
            = Inr (fold (\<lambda>mu. fold (?f mu) [0..<?n]) [0..<?n] a)
            \<and> ?P (fold (\<lambda>mu. fold (?f mu) [0..<?n]) [0..<?n] a)"
    if "?P a" for a
    by (rule for_range_pure[where P = ?P]) (use that l2 in simp_all)
  have z: "?P (np_zeros [?n, ?n])" by (simp add: np_zeros_def)
  show ?thesis unfolding compute_einstein_tensor_def Let_def using l1[OF z] by simp
qed

lemma is_square_rectangular: "is_square m \<Longrightarrow> rectangular m"
  by (cases m) (auto simp: is_square_def rectangular_def list_all_iff)

lemma DifferentialGeometry_init_ok:
  assumes "is_square g" "bk_inv B g = Some g_inv"
  shows "DifferentialGeometry_init B g x =
     Inr \<lparr>metric = g, inverse_metric = g_inv, det = bk_det B g, ndim = length g,
          variables = x, parameterized_vars = map (bk_Function B) x\<rparr>"
  using assms
  by (simp add: DifferentialGeometry_init_def Matrix_def Matrix_inv_def Matrix_det_def is_square_rectangular)

text \<open>Construction of a RiemannGeometry succeeds on a square metric whose inverse was
  found, with at least as many symbols as rows, and fills the tensors by the formulas.\<close>

lemma RiemannGeometry_init_ok:
  assumes sq: "is_square g" and inv: "bk_inv B g = Some g_inv"
    and isq: "is_square g_inv" "length g_inv = length g" and xs: "length g \<le> length x"
  shows "\<exists>rg. RiemannGeometry_init B g x = Inr rg
     \<and> metric rg = g \<and> inverse_metric rg = g_inv \<and> det rg = bk_det B g \<and> ndim rg = length g
     \<and> variables rg = x \<and> parameterized_vars rg = map (bk_Function B) x
     \<and> shape (christoffel_symbols rg) = [length g, length g, length g]
     \<and> shape (riemann_curvature_tensor rg) = [length g, length g, length g, length g]
     \<and> shape (ricci_tensor rg) = [length g, length g]
     \<and> (\<forall>rho<length g. \<forall>lamda<length g. \<forall>nu<length g.
          data (christoffel_symbols rg) [rho, lamda, nu] = christoffel_formula B g g_inv x rho lamda nu)
     \<and> (\<forall>rho<length g. \<forall>lamda<length g. \<forall>mu<length g. \<forall>nu<length g.
          data (riemann_curvature_tensor rg) [rho, lamda, mu, nu]
            = riemann_formula B x (length g) (data (christoffel_symbols rg)) rho lamda mu nu)
     \<and> (\<forall>mu<length g. \<forall>nu<length g.
          data (ricci_tensor rg) [mu, nu]
            = ricci_formula B (length g) (data (riemann_curvature_tensor rg)) mu nu)
     \<and> ricci_scalar rg = ricci_scalar_formula B g_inv (length g) (data (ricci_tensor rg))"
proof -
  let ?self = "\<lparr>metric = g, inverse_metric = g_inv, det = bk_det B g, ndim = length g,
          variables = x, parameterized_vars = map (bk_Function B) x\<rparr>"
  have wf: "wf_model ?self" using sq isq xs by (simp add: wf_model_def)
  obtain cs where cs: "compute_christoffel_symbols B ?self = Inr cs"
      "shape cs = [length g, length g, length g]"
      "\<forall>rho<length g. \<forall>lamda<length g. \<forall>nu<length g.
          data cs [rho, lamda, nu] = christoffel_formula B g g_inv x rho lamda nu"
    using compute_christoffel_symbols_ok[OF wf, of B] by auto
  have csh: "shape cs = [ndim ?self, ndim ?self, ndim ?self]" using cs(2) by simp
  obtain rt where rt: "compute_riemann_curvature_tensor B ?self cs = Inr rt"
      "shape rt = [length g, length g, length g, length g]"
      "\<forall>rho<length g. \<forall>lamda<length g. \<forall>mu<length g. \<forall>nu<length g.
          data rt [rho, lamda, mu, nu] = riemann_formula B x (length g) (data cs) rho lamda mu nu"
    using compute_riemann_curvature_tensor_ok[OF wf csh, of B] by auto
  have rsh: "shape rt = [ndim ?self, ndim ?self, ndim ?self, ndim ?self]" using rt(2) by simp
  obtain rc where rc: "compute_ricci_tensor B ?self rt = Inr rc"
      "shape rc = [length g, length g]"
      "\<forall>mu<length g. \<forall>nu<length g. data rc [mu, nu] = ricci_formula B (length g) (data rt) mu nu"
    using compute_ricci_tensor_ok[OF rsh, of B] by auto
  have rcsh: "shape rc = [ndim ?self, ndim ?self]" using rc(2) by simp
  have rs: "compute_ricci_scalar B ?self rc = Inr (ricci_scalar_formula B g_inv (length g) (data rc))"
    using compute_ricci_scalar_ok[OF wf rcsh, of B] by simp
  obtain et where et: "compute_einstein_tensor B ?self rc (ricci_scalar_formula B g_inv (length g) (data rc)) = Inr et"
    using compute_einstein_tensor_ok[OF wf rcsh] by blast
  show ?thesis
    unfolding RiemannGeometry_init_def DifferentialGeometry_init_ok[OF sq inv]
    using cs rt rc rs et by simp
qed

section \<open>Coefficients of the series operations\<close>

lemma coeff_zero [simp]: "coeff 0 n = 0" by (simp add: zero_series_def)
lemma coeff_one [simp]: "coeff 1 n = (if n = 0 then 1 else 0)" by (simp add: one_series_def)
lemma coeff_add [simp]: "coeff (a + b) n = coeff a n + coeff b n" by (simp add: plus_series_def)
lemma coeff_diff [simp]: "coeff (a - b) n = coeff a n - coeff b n" by (simp add: minus_series_def)
lemma coeff_uminus [simp]: "coeff (- a) n = - coeff a n" by (simp add: uminus_series_def)
lemma coeff_mult: "coeff (a * b) n = (\<Sum>i\<le>n. coeff a i * coeff b (n - i))" by (simp add: times_series_def)
lemma coeff_mult_0 [simp]: "coeff (a * b) 0 = coeff a 0 * coeff b 0" by (simp add: coeff_mult)
lemma coeff_X [simp]: "coeff X n = (if n = 1 then 1 else 0)" by (simp add: X_def)
lemma coeff_series_diff [simp]: "coeff (series_diff a) n = of_nat (Suc n) * coeff a (Suc n)"
  by (simp add: series_diff_def)

lemma coeff_of_nat: "coeff (of_nat m) n = (if n = 0 then of_nat m else 0)"
  by (induction m) simp_all

lemma coeff_numeral [simp]: "coeff (numeral k) n = (if n = 0 then numeral k else 0)"
  using coeff_of_nat[of "numeral k" n] by simp

lemma coeff_divide_0 [simp]: "coeff (a / b) 0 = coeff a 0 / coeff b 0"
  by (simp add: divide_series_def inverse_series_def divide_inverse)

lemma series_diff_X [simp]: "series_diff X = 1"
  by (rule series.expand, rule ext) simp

lemma series_diff_0 [simp]: "series_diff 0 = 0"
  by (rule series.expand, rule ext) simp

lemma series_diff_1 [simp]: "series_diff 1 = 0"
  by (rule series.expand, rule ext) simp

lemma series_diff_add: "series_diff (a + b) = series_diff a + series_diff b"
  by (rule series.expand, rule ext) (simp add: algebra_simps)

section \<open>Further lemmas for the claims\<close>

lemma christoffel_formula_symmetric:
  assumes sym: "\<forall>i<length g. \<forall>j<length g. g ! i ! j = g ! j ! i"
    and "lamda < length g" "nu < length g"
  shows "christoffel_formula B g g_inv x rho lamda nu = christoffel_formula B g g_inv x rho nu lamda"
proof -
  have "christoffel_summand B g g_inv x rho lamda nu mu = christoffel_summand B g g_inv x rho nu lamda mu"
    if "mu < length g" for mu
    using sym assms(2,3) that by (simp add: christoffel_summand_def add.commute)
  then show ?thesis unfolding christoffel_formula_def by simp
qed

lemma riemann_formula_antisymmetric:
  fixes \<Gamma> :: "nat list \<Rightarrow> 'e::{comm_ring_1,inverse}"
  assumes neg: "\<forall>e. bk_simplify B (- e) = - bk_simplify B e"
  shows "riemann_formula B x n \<Gamma> rho lamda mu nu = - riemann_formula B x n \<Gamma> rho lamda nu mu"
proof -
  have "(\<Sum>sigma<n. \<Gamma> [sigma, lamda, nu] * \<Gamma> [rho, sigma, mu] - \<Gamma> [sigma, lamda, mu] * \<Gamma> [rho, sigma, nu])
      = - (\<Sum>sigma<n. \<Gamma> [sigma, lamda, mu] * \<Gamma> [rho, sigma, nu] - \<Gamma> [sigma, lamda, nu] * \<Gamma> [rho, sigma, mu])"
    unfolding sum_negf[symmetric] by (rule sum.cong) simp_all
  then have eq: "bk_diff B (\<Gamma> [rho, lamda, nu]) (x ! mu) - bk_diff B (\<Gamma> [rho, lamda, mu]) (x ! nu)
        + (\<Sum>sigma<n. \<Gamma> [sigma, lamda, nu] * \<Gamma> [rho, sigma, mu] - \<Gamma> [sigma, lamda, mu] * \<Gamma> [rho, sigma, nu])
      = - (bk_diff B (\<Gamma> [rho, lamda, mu]) (x ! nu) - bk_diff B (\<Gamma> [rho, lamda, nu]) (x ! mu)
        + (\<Sum>sigma<n. \<Gamma> [sigma, lamda, mu] * \<Gamma> [rho, sigma, nu] - \<Gamma> [sigma, lamda, nu] * \<Gamma> [rho, sigma, mu]))"
    by simp
  show ?thesis unfolding riemann_formula_def eq by (rule neg[rule_format])
qed

lemma coeff_mult_1: "coeff (a * b) (Suc 0) = coeff a 0 * coeff b (Suc 0) + coeff a (Suc 0) * coeff b 0"
  by (simp add: coeff_mult)

lemma sum_lessThan_2: "(\<Sum>i<(2::nat). f i) = f 0 + f 1" for f :: "nat \<Rightarrow> 'a::comm_monoid_add"
  by (simp add: numeral_2_eq_2)

lemma polar_inverse:
  "bk_inv series_backend [[1, 0], [0, (1 + X) * (1 + X)]]
   = Some [[(1 + X) * (1 + X) / (1 * ((1 + X) * (1 + X)) - 0 * 0), - 0 / (1 * ((1 + X) * (1 + X)) - 0 * 0)],
           [- 0 / (1 * ((1 + X) * (1 + X)) - 0 * 0), 1 / (1 * ((1 + X) * (1 + X)) - 0 * 0)]]"
  by (simp add: series_backend_def)

lemma shear_inverse:
  "bk_inv series_backend [[1, X], [0, 1]]
   = Some [[1 / (1 * 1 - X * 0), - X / (1 * 1 - X * 0)], [- 0 / (1 * 1 - X * 0), 1 / (1 * 1 - X * 0)]]"
  by (simp add: series_backend_def)

lemma DifferentialGeometry_init_ndim:
  "DifferentialGeometry_init B g x = Inr self \<Longrightarrow> ndim self = length g"
  by (auto simp: DifferentialGeometry_init_def bindE_def split: sum.splits)

lemma line_init:
  "DifferentialGeometry_init constant_backend [[1]] [''x''] =
     Inr \<lparr>metric = [[1]], inverse_metric = [[1 / 1]], det = 1, ndim = 1,
          variables = [''x''], parameterized_vars = [0]\<rparr>"
  by (simp add: DifferentialGeometry_init_def Matrix_def Matrix_inv_def Matrix_det_def
      rectangular_def is_square_def constant_backend_def)








lemma polar_square:
  "is_square [[1, 0], [0, (1 + X) * (1 + X)]]"
  "is_square [[(1 + X) * (1 + X) / (1 * ((1 + X) * (1 + X)) - 0 * 0), - 0 / (1 * ((1 + X) * (1 + X)) - 0 * 0)],
           [- 0 / (1 * ((1 + X) * (1 + X)) - 0 * 0), 1 / (1 * ((1 + X) * (1 + X)) - 0 * 0)]]"
  "length [[(1 + X) * (1 + X) / (1 * ((1 + X) * (1 + X)) - 0 * 0), - 0 / (1 * ((1 + X) * (1 + X)) - 0 * 0)],
           [- 0 / (1 * ((1 + X) * (1 + X)) - 0 * 0), 1 / (1 * ((1 + X) * (1 + X)) - 0 * 0)]]
     = length [[1, 0], [0, (1 + X) * (1 + X)]]"
  "length [[1, 0], [0, (1 + X) * (1 + X)]] \<le> length [''x'', ''y'']"
  by (simp_all add: is_square_def)

lemma random_list_length: "length (fst (random_list rnd k g)) = k"
proof (induction k arbitrary: g)
  case 0 show ?case by simp
next
  case (Suc k)
  obtain r g1 where r: "rnd g = (r, g1)" by (cases "rnd g")
  obtain rs g2 where rs: "random_list rnd k g1 = (rs, g2)" by (cases "random_list rnd k g1")
  show ?case using Suc[of g1] r rs by simp
qed

lemma random_list_4:
  "random_list rnd 4 g =
     (case rnd g of (r1, g1) \<Rightarrow> case rnd g1 of (r2, g2) \<Rightarrow> case rnd g2 of (r3, g3) \<Rightarrow>
        case rnd g3 of (r4, g4) \<Rightarrow> ([r1, r2, r3, r4], g4))"
proof -
  have "random_list rnd (Suc (Suc (Suc (Suc 0)))) g =
     (case rnd g of (r1, g1) \<Rightarrow> case rnd g1 of (r2, g2) \<Rightarrow> case rnd g2 of (r3, g3) \<Rightarrow>
        case rnd g3 of (r4, g4) \<Rightarrow> ([r1, r2, r3, r4], g4))"
    by (simp split: prod.splits)
  then show ?thesis by (simp add: numeral_eq_Suc)
qed

lemma random_list_range:
  assumes "\<forall>g. P (fst (rnd g))"
  shows "\<forall>r\<in>set (fst (random_list rnd k g)). P r"
proof (induction k arbitrary: g)
  case 0 show ?case by simp
next
  case (Suc k)
  obtain r g1 where r: "rnd g = (r, g1)" by (cases "rnd g")
  obtain rs g2 where rs: "random_list rnd k g1 = (rs, g2)" by (cases "random_list rnd k g1")
  have "P r" using assms[rule_format, of g] r by simp
  moreover have "\<forall>q\<in>set rs. P q" using Suc[of g1] rs by simp
  ultimately show ?case using r rs by simp
qed

lemma example_numeric_unit:
  "\<forall>g. 0 \<le> fst (bk_random example_numeric g) \<and> fst (bk_random example_numeric g) < 1"
proof
  fix g :: nat
  have "g mod 1000 < 1000" by simp
  then have "(of_nat (g mod 1000) :: rat) < 1000" by (metis of_nat_less_iff of_nat_numeral)
  then show "0 \<le> fst (bk_random example_numeric g) \<and> fst (bk_random example_numeric g) < 1"
    by (simp add: example_numeric_def)
qed
















lemma diff_add: "derivation B v \<Longrightarrow> bk_diff B (a + b) v = bk_diff B a v + bk_diff B b v"
  unfolding derivation_def by blast

lemma diff_mult: "derivation B v \<Longrightarrow> bk_diff B (a * b) v = bk_diff B a v * b + a * bk_diff B b v"
  unfolding derivation_def by blast

lemma diff_zero: assumes "derivation B v" shows "bk_diff B 0 v = 0"
  using diff_add[OF assms, of 0 0] by simp

lemma diff_one: assumes "derivation B v" shows "bk_diff B 1 v = 0"
  using diff_mult[OF assms, of 1 1] by simp

lemma diff_minus: assumes "derivation B v" shows "bk_diff B (- a) v = - bk_diff B a v"
  using diff_add[OF assms, of a "- a"] diff_zero[OF assms] by (simp add: add_eq_0_iff)

lemma diff_diff: assumes "derivation B v" shows "bk_diff B (a - b) v = bk_diff B a v - bk_diff B b v"
  using diff_add[OF assms, of a "- b"] diff_minus[OF assms, of b] by simp

lemma diff_of_nat: assumes "derivation B v" shows "bk_diff B (of_nat n) v = 0"
proof (induction n)
  case 0
  show ?case using diff_zero[OF assms] by simp
next
  case (Suc n)
  show ?case using diff_add[OF assms, of "of_nat n" 1] Suc diff_one[OF assms] by (simp add: add.commute)
qed

lemma diff_numeral: assumes "derivation B v" shows "bk_diff B (numeral k) v = 0"
  using diff_of_nat[OF assms, of "numeral k"] by simp

lemma diff_inverse:
  assumes "derivation B v" and "a \<noteq> 0"
  shows "bk_diff B (inverse a) v = - bk_diff B a v * inverse a * inverse a"
proof -
  have "bk_diff B a v * inverse a + a * bk_diff B (inverse a) v = 0"
    using diff_mult[OF assms(1), of a "inverse a"] assms(2) diff_one[OF assms(1)] by simp
  then have "a * bk_diff B (inverse a) v = - bk_diff B a v * inverse a" by (simp add: add_eq_0_iff)
  then have "inverse a * (a * bk_diff B (inverse a) v) = inverse a * (- bk_diff B a v * inverse a)" by simp
  then show ?thesis using assms(2) by (simp add: field_simps)
qed

lemma diff_divide:
  assumes "derivation B v" and "b \<noteq> 0"
  shows "bk_diff B (a / b) v = (bk_diff B a v * b - a * bk_diff B b v) / (b * b)"
  using diff_mult[OF assms(1), of a "inverse b"] diff_inverse[OF assms] assms(2)
  by (simp add: field_simps)

lemma diff_half: assumes "derivation B v" shows "bk_diff B (a / 2) v = bk_diff B a v / 2"
  using diff_divide[OF assms, of 2 a] diff_numeral[OF assms] by simp

lemma sum_lessThan_two: "(\<Sum>i<(2::nat). f i) = f 0 + f 1" for f :: "nat \<Rightarrow> 'a::comm_monoid_add"
  by (simp add: numeral_2_eq_2)

lemma riemann_0101:
  fixes B :: "('e::field_char_0, 'v) symbolic_backend"
  assumes d0: "derivation B x0" and d1: "derivation B x1" and comm: "commuting B x0 x1"
    and vp: "value_preserving B" and det: "E * G - F * F \<noteq> 0"
    and g: "g = [[E, F], [F, G]]"
    and gi: "g_inv = [[G / (E * G - F * F), - F / (E * G - F * F)], [- F / (E * G - F * F), E / (E * G - F * F)]]"
    and x: "x ! 0 = x0" "x ! 1 = x1"
  shows "riemann_formula B x 2 (\<lambda>idx. christoffel_formula B g g_inv x (idx ! 0) (idx ! 1) (idx ! 2)) 0 1 0 1
         = G * brioschi B E F G x0 x1"
proof -
  have c: "bk_diff B (bk_diff B a x1) x0 = bk_diff B (bk_diff B a x0) x1" for a
    using comm unfolding commuting_def by simp
  have s: "bk_simplify B e = e" for e using vp unfolding value_preserving_def by simp
  note Ds = diff_add[OF d0] diff_add[OF d1] diff_mult[OF d0] diff_mult[OF d1] diff_diff[OF d0] diff_diff[OF d1]
     diff_minus[OF d0] diff_minus[OF d1] diff_half[OF d0] diff_half[OF d1] diff_divide[OF d0 det] diff_divide[OF d1 det] c
  have len: "length g = 2" using g by simp
  have cf: "christoffel_formula B g g_inv x r l n
      = christoffel_summand B g g_inv x r l n 0 + christoffel_summand B g g_inv x r l n 1" for r l n
    unfolding christoffel_formula_def len sum_lessThan_two s ..
  have idx: "[a, b, c] ! 0 = a" "[a, b, c] ! 1 = b" "[a, b, c] ! 2 = c" for a b c :: nat
    by simp_all
  have m: "[[a, b], [c, d]] ! 0 ! 0 = a" "[[a, b], [c, d]] ! 0 ! 1 = b"
      "[[a, b], [c, d]] ! 1 ! 0 = c" "[[a, b], [c, d]] ! 1 ! 1 = d" for a b c d :: 'e
    by simp_all
  show ?thesis
    unfolding riemann_formula_def sum_lessThan_two s idx cf
    unfolding christoffel_summand_def g gi brioschi_def Let_def m x
    apply (simp only: Ds)
    using det apply (simp add: divide_simps)
    apply (simp add: algebra_simps power2_eq_square)
    done
qed

lemma riemann_1010:
  fixes B :: "('e::field_char_0, 'v) symbolic_backend"
  assumes d0: "derivation B x0" and d1: "derivation B x1" and comm: "commuting B x0 x1"
    and vp: "value_preserving B" and det: "E * G - F * F \<noteq> 0"
    and g: "g = [[E, F], [F, G]]"
    and gi: "g_inv = [[G / (E * G - F * F), - F / (E * G - F * F)], [- F / (E * G - F * F), E / (E * G - F * F)]]"
    and x: "x ! 0 = x0" "x ! 1 = x1"
  shows "riemann_formula B x 2 (\<lambda>idx. christoffel_formula B g g_inv x (idx ! 0) (idx ! 1) (idx ! 2)) 1 0 1 0
         = E * brioschi B E F G x0 x1"
proof -
  have c: "bk_diff B (bk_diff B a x1) x0 = bk_diff B (bk_diff B a x0) x1" for a
    using comm unfolding commuting_def by simp
  have s: "bk_simplify B e = e" for e using vp unfolding value_preserving_def by simp
  note Ds = diff_add[OF d0] diff_add[OF d1] diff_mult[OF d0] diff_mult[OF d1] diff_diff[OF d0] diff_diff[OF d1]
     diff_minus[OF d0] diff_minus[OF d1] diff_half[OF d0] diff_half[OF d1] diff_divide[OF d0 det] diff_divide[OF d1 det] c
  have len: "length g = 2" using g by simp
  have cf: "christoffel_formula B g g_inv x r l n
      = christoffel_summand B g g_inv x r l n 0 + christoffel_summand B g g_inv x r l n 1" for r l n
    unfolding christoffel_formula_def len sum_lessThan_two s ..
  have idx: "[a, b, c] ! 0 = a" "[a, b, c] ! 1 = b" "[a, b, c] ! 2 = c" for a b c :: nat
    by simp_all
  have m: "[[a, b], [c, d]] ! 0 ! 0 = a" "[[a, b], [c, d]] ! 0 ! 1 = b"
      "[[a, b], [c, d]] ! 1 ! 0 = c" "[[a, b], [c, d]] ! 1 ! 1 = d" for a b c d :: 'e
    by simp_all
  show ?thesis
    unfolding riemann_formula_def sum_lessThan_two s idx cf
    unfolding christoffel_summand_def g gi brioschi_def Let_def m x
    apply (simp only: Ds)
    using det apply (simp add: divide_simps)
    apply (simp add: algebra_simps power2_eq_square)
    done
qed

lemma riemann_0001:
  fixes B :: "('e::field_char_0, 'v) symbolic_backend"
  assumes d0: "derivation B x0" and d1: "derivation B x1" and comm: "commuting B x0 x1"
    and vp: "value_preserving B" and det: "E * G - F * F \<noteq> 0"
    and g: "g = [[E, F], [F, G]]"
    and gi: "g_inv = [[G / (E * G - F * F), - F / (E * G - F * F)], [- F / (E * G - F * F), E / (E * G - F * F)]]"
    and x: "x ! 0 = x0" "x ! 1 = x1"
  shows "riemann_formula B x 2 (\<lambda>idx. christoffel_formula B g g_inv x (idx ! 0) (idx ! 1) (idx ! 2)) 0 0 0 1
         = F * brioschi B E F G x0 x1"
proof -
  have c: "bk_diff B (bk_diff B a x1) x0 = bk_diff B (bk_diff B a x0) x1" for a
    using comm unfolding commuting_def by simp
  have s: "bk_simplify B e = e" for e using vp unfolding value_preserving_def by simp
  note Ds = diff_add[OF d0] diff_add[OF d1] diff_mult[OF d0] diff_mult[OF d1] diff_diff[OF d0] diff_diff[OF d1]
     diff_minus[OF d0] diff_minus[OF d1] diff_half[OF d0] diff_half[OF d1] diff_divide[OF d0 det] diff_divide[OF d1 det] c
  have len: "length g = 2" using g by simp
  have cf: "christoffel_formula B g g_inv x r l n
      = christoffel_summand B g g_inv x r l n 0 + christoffel_summand B g g_inv x r l n 1" for r l n
    unfolding christoffel_formula_def len sum_lessThan_two s ..
  have idx: "[a, b, c] ! 0 = a" "[a, b, c] ! 1 = b" "[a, b, c] ! 2 = c" for a b c :: nat
    by simp_all
  have m: "[[a, b], [c, d]] ! 0 ! 0 = a" "[[a, b], [c, d]] ! 0 ! 1 = b"
      "[[a, b], [c, d]] ! 1 ! 0 = c" "[[a, b], [c, d]] ! 1 ! 1 = d" for a b c d :: 'e
    by simp_all
  show ?thesis
    unfolding riemann_formula_def sum_lessThan_two s idx cf
    unfolding christoffel_summand_def g gi brioschi_def Let_def m x
    apply (simp only: Ds)
    using det apply (simp add: divide_simps)
    apply (simp add: algebra_simps power2_eq_square)
    done
qed

lemma riemann_1110:
  fixes B :: "('e::field_char_0, 'v) symbolic_backend"
  assumes d0: "derivation B x0" and d1: "derivation B x1" and comm: "commuting B x0 x1"
    and vp: "value_preserving B" and det: "E * G - F * F \<noteq> 0"
    and g: "g = [[E, F], [F, G]]"
    and gi: "g_inv = [[G / (E * G - F * F), - F / (E * G - F * F)], [- F / (E * G - F * F), E / (E * G - F * F)]]"
    and x: "x ! 0 = x0" "x ! 1 = x1"
  shows "riemann_formula B x 2 (\<lambda>idx. christoffel_formula B g g_inv x (idx ! 0) (idx ! 1) (idx ! 2)) 1 1 1 0
         = F * brioschi B E F G x0 x1"
proof -
  have c: "bk_diff B (bk_diff B a x1) x0 = bk_diff B (bk_diff B a x0) x1" for a
    using comm unfolding commuting_def by simp
  have s: "bk_simplify B e = e" for e using vp unfolding value_preserving_def by simp
  note Ds = diff_add[OF d0] diff_add[OF d1] diff_mult[OF d0] diff_mult[OF d1] diff_diff[OF d0] diff_diff[OF d1]
     diff_minus[OF d0] diff_minus[OF d1] diff_half[OF d0] diff_half[OF d1] diff_divide[OF d0 det] diff_divide[OF d1 det] c
  have len: "length g = 2" using g by simp
  have cf: "christoffel_formula B g g_inv x r l n
      = christoffel_summand B g g_inv x r l n 0 + christoffel_summand B g g_inv x r l n 1" for r l n
    unfolding christoffel_formula_def len sum_lessThan_two s ..
  have idx: "[a, b, c] ! 0 = a" "[a, b, c] ! 1 = b" "[a, b, c] ! 2 = c" for a b c :: nat
    by simp_all
  have m: "[[a, b], [c, d]] ! 0 ! 0 = a" "[[a, b], [c, d]] ! 0 ! 1 = b"
      "[[a, b], [c, d]] ! 1 ! 0 = c" "[[a, b], [c, d]] ! 1 ! 1 = d" for a b c d :: 'e
    by simp_all
  show ?thesis
    unfolding riemann_formula_def sum_lessThan_two s idx cf
    unfolding christoffel_summand_def g gi brioschi_def Let_def m x
    apply (simp only: Ds)
    using det apply (simp add: divide_simps)
    apply (simp add: algebra_simps power2_eq_square)
    done
qed

lemma riemann_formula_diagonal:
  fixes \<Gamma> :: "nat list \<Rightarrow> 'e::field_char_0"
  assumes "value_preserving B"
  shows "riemann_formula B x n \<Gamma> rho lamda mu mu = 0"
  using assms unfolding riemann_formula_def value_preserving_def by simp

lemma riemann_formula_cong:
  fixes \<Gamma> :: "nat list \<Rightarrow> 'e::{comm_ring_1,inverse}"
  assumes "\<forall>a<n. \<forall>b<n. \<forall>c<n. \<Gamma> [a, b, c] = \<Gamma>' [a, b, c]"
    and "rho < n" "lamda < n" "mu < n" "nu < n"
  shows "riemann_formula B x n \<Gamma> rho lamda mu nu = riemann_formula B x n \<Gamma>' rho lamda mu nu"
proof -
  have "(\<Sum>sigma<n. \<Gamma> [sigma, lamda, nu] * \<Gamma> [rho, sigma, mu] - \<Gamma> [sigma, lamda, mu] * \<Gamma> [rho, sigma, nu])
      = (\<Sum>sigma<n. \<Gamma>' [sigma, lamda, nu] * \<Gamma>' [rho, sigma, mu] - \<Gamma>' [sigma, lamda, mu] * \<Gamma>' [rho, sigma, nu])"
    by (rule sum.cong) (use assms in simp_all)
  then show ?thesis unfolding riemann_formula_def using assms by simp
qed

lemma square_two_rows:
  assumes "is_square m" and "length m = 2"
  shows "m = [[m ! 0 ! 0, m ! 0 ! 1], [m ! 1 ! 0, m ! 1 ! 1]]"
proof -
  have r: "length (m ! 0) = 2" "length (m ! 1) = 2"
    using assms by (simp_all add: is_square_def list_all_length)
  have two: "xs = [xs ! 0, xs ! 1]" if "length xs = 2" for xs :: "'b list"
    using that by (auto simp: numeral_2_eq_2 length_Suc_conv)
  have "m = [m ! 0, m ! 1]" by (rule two[OF assms(2)])
  then show ?thesis using two[OF r(1)] two[OF r(2)] by metis
qed

lemma inverse_2x2_entries:
  fixes E F G :: "'e::field_char_0"
  assumes "inverse_2x2 [[E, F], [F, G]] [[a, b], [c, d]]"
  shows "E * G - F * F \<noteq> 0"
    and "a = G / (E * G - F * F)" and "b = - F / (E * G - F * F)"
    and "c = - F / (E * G - F * F)" and "d = E / (E * G - F * F)"
proof -
  have e: "E * a + F * c = 1" "E * b + F * d = 0" "F * a + G * c = 0" "F * b + G * d = 1"
    using assms by (simp_all add: inverse_2x2_def)
  have "(E * G - F * F) * (a * d - b * c) = (E * a + F * c) * (F * b + G * d) - (E * b + F * d) * (F * a + G * c)"
    by (simp add: algebra_simps)
  then have p: "(E * G - F * F) * (a * d - b * c) = 1" unfolding e by simp
  then show nz: "E * G - F * F \<noteq> 0" by auto
  have "a * (E * G - F * F) = G * (E * a + F * c) - F * (F * a + G * c)" by (simp add: algebra_simps)
  then have "a * (E * G - F * F) = G" unfolding e by simp
  then show "a = G / (E * G - F * F)" using nz by (simp add: field_simps)
  have "b * (E * G - F * F) = G * (E * b + F * d) - F * (F * b + G * d)" by (simp add: algebra_simps)
  then have "b * (E * G - F * F) = - F" unfolding e by simp
  then show "b = - F / (E * G - F * F)" using nz by (simp add: field_simps)
  have "c * (E * G - F * F) = E * (F * a + G * c) - F * (E * a + F * c)" by (simp add: algebra_simps)
  then have "c * (E * G - F * F) = - F" unfolding e by simp
  then show "c = - F / (E * G - F * F)" using nz by (simp add: field_simps)
  have "d * (E * G - F * F) = E * (F * b + G * d) - F * (E * b + F * d)" by (simp add: algebra_simps)
  then have "d * (E * G - F * F) = E" unfolding e by simp
  then show "d = E / (E * G - F * F)" using nz by (simp add: field_simps)
qed

lemma compute_gaussian_curvature_brioschi:
  fixes B :: "('e::field_char_0, 'v) symbolic_backend"
  assumes "metric self = [[E, F], [F, G]]" and "det self = E * G - F * F"
    and "2 \<le> length (variables self)" and "value_preserving B"
  shows "compute_gaussian_curvature B self
         = Inr (brioschi B E F G (variables self ! 0) (variables self ! 1))"
proof -
  have "variables self \<noteq> []" using assms(3) by auto
  then show ?thesis
    using assms
    unfolding compute_gaussian_curvature_def brioschi_def value_preserving_def
    by (simp add: mget_def nth_py_def Let_def power2_eq_square)
qed

lemma half_trace:
  fixes E F G K :: "'e::field_char_0"
  assumes "E * G - F * F \<noteq> 0"
  shows "G / (E * G - F * F) * (E * K) + - F / (E * G - F * F) * (F * K)
        + (- F / (E * G - F * F) * (F * K) + E / (E * G - F * F) * (G * K)) = 2 * K"
proof -
  define D where "D = E * G - F * F"
  have nz: "D \<noteq> 0" using assms unfolding D_def .
  have "G / D * (E * K) + - F / D * (F * K) + (- F / D * (F * K) + E / D * (G * K))
      = 2 * K * ((E * G - F * F) / D)"
    using nz by (simp add: field_simps)
  also have "\<dots> = 2 * K" using nz unfolding D_def[symmetric] by simp
  finally show ?thesis unfolding D_def .
qed

lemma ricci_scalar_two_dimensions:
  fixes B :: "('e::field_char_0, 'v) symbolic_backend"
  assumes d0: "derivation B (x ! 0)" and d1: "derivation B (x ! 1)" and comm: "commuting B (x ! 0) (x ! 1)"
    and vp: "value_preserving B" and det: "E * G - F * F \<noteq> 0"
    and g: "g = [[E, F], [F, G]]"
    and gi: "g_inv = [[G / (E * G - F * F), - F / (E * G - F * F)], [- F / (E * G - F * F), E / (E * G - F * F)]]"
    and cs: "\<forall>a<2. \<forall>b<2. \<forall>c<2. \<Gamma> [a, b, c] = christoffel_formula B g g_inv x a b c"
    and rt: "\<forall>a<2. \<forall>b<2. \<forall>c<2. \<forall>d<2. R [a, b, c, d] = riemann_formula B x 2 \<Gamma> a b c d"
    and rc: "\<forall>a<2. \<forall>b<2. Ric [a, b] = ricci_formula B 2 R a b"
  shows "ricci_scalar_formula B g_inv 2 Ric = 2 * brioschi B E F G (x ! 0) (x ! 1)"
proof -
  let ?K = "brioschi B E F G (x ! 0) (x ! 1)"
  let ?C = "\<lambda>idx. christoffel_formula B g g_inv x (idx ! 0) (idx ! 1) (idx ! 2)"
  have s: "bk_simplify B e = e" for e using vp unfolding value_preserving_def by simp
  have cs': "\<forall>a<2. \<forall>b<2. \<forall>c<2. \<Gamma> [a, b, c] = ?C [a, b, c]" using cs by simp
  have R: "R [a, b, c, d] = riemann_formula B x 2 ?C a b c d" if "a < 2" "b < 2" "c < 2" "d < 2" for a b c d
    using rt that riemann_formula_cong[OF cs' that, of B x] by simp
  note comp = riemann_0101[OF d0 d1 comm vp det g gi refl refl] riemann_1010[OF d0 d1 comm vp det g gi refl refl]
    riemann_0001[OF d0 d1 comm vp det g gi refl refl] riemann_1110[OF d0 d1 comm vp det g gi refl refl]
  have lt: "(0::nat) < 2" "(1::nat) < 2" by simp_all
  have r: "R [0, 0, 0, 0] = 0" "R [1, 0, 1, 0] = E * ?K" "R [0, 0, 0, 1] = F * ?K" "R [1, 0, 1, 1] = 0"
      "R [0, 1, 0, 0] = 0" "R [1, 1, 1, 0] = F * ?K" "R [0, 1, 0, 1] = G * ?K" "R [1, 1, 1, 1] = 0"
    unfolding R[OF lt(1) lt(1) lt(1) lt(1)] R[OF lt(2) lt(1) lt(2) lt(1)] R[OF lt(1) lt(1) lt(1) lt(2)]
      R[OF lt(2) lt(1) lt(2) lt(2)] R[OF lt(1) lt(2) lt(1) lt(1)] R[OF lt(2) lt(2) lt(2) lt(1)]
      R[OF lt(1) lt(2) lt(1) lt(2)] R[OF lt(2) lt(2) lt(2) lt(2)] comp riemann_formula_diagonal[OF vp]
    by (rule refl)+
  have ric: "Ric [0, 0] = E * ?K" "Ric [0, 1] = F * ?K" "Ric [1, 0] = F * ?K" "Ric [1, 1] = G * ?K"
    using rc r by (simp_all add: ricci_formula_def sum_lessThan_two s)
  have "ricci_scalar_formula B g_inv 2 Ric
      = G / (E * G - F * F) * (E * ?K) + - F / (E * G - F * F) * (F * ?K)
        + (- F / (E * G - F * F) * (F * ?K) + E / (E * G - F * F) * (G * ?K))"
    unfolding ricci_scalar_formula_def sum_lessThan_two s gi using ric by simp
  also have "\<dots> = 2 * ?K" using det by (rule half_trace)
  finally show ?thesis .
qed

lemma constant_backend_laws:
  "derivation constant_backend v" "commuting constant_backend v w" "value_preserving constant_backend"
  by (simp_all add: derivation_def commuting_def value_preserving_def constant_backend_def)

section \<open>The claims\<close>

text \<open>
  Claim C1.  On a square metric whose inverse the library found (the determinant is not
  zero), with a symbol for every index, construction of a RiemannGeometry succeeds, and for
  every index triple below \<open>n\<close> the Christoffel array holds
  \<open>simplify\<close> applied once to the finished sum over \<open>mu\<close> of
  \<open>g_inv[rho][mu] * (d g[mu][nu] / d x[lamda] + d g[mu][lamda] / d x[nu] - d g[nu][lamda] / d x[mu]) / 2\<close>.
  The statement holds for every \<open>simplify\<close>, so no term is simplified on its own.
\<close>

theorem christoffel_symbols_formula:
  assumes "is_square g" and "bk_inv B g = Some g_inv"
    and "is_square g_inv" and "length g_inv = length g" and "length g \<le> length x"
  shows "\<exists>rg. RiemannGeometry_init B g x = Inr rg \<and>
     (\<forall>rho<length g. \<forall>lamda<length g. \<forall>nu<length g.
        np_get (christoffel_symbols rg) [rho, lamda, nu] =
          Inr (bk_simplify B (\<Sum>mu<length g.
                 g_inv ! rho ! mu * (bk_diff B (g ! mu ! nu) (x ! lamda)
                                     + bk_diff B (g ! mu ! lamda) (x ! nu)
                                     - bk_diff B (g ! nu ! lamda) (x ! mu)) / 2)))"
proof -
  obtain rg where rg: "RiemannGeometry_init B g x = Inr rg"
      "shape (christoffel_symbols rg) = [length g, length g, length g]"
      "\<forall>rho<length g. \<forall>lamda<length g. \<forall>nu<length g.
          data (christoffel_symbols rg) [rho, lamda, nu] = christoffel_formula B g g_inv x rho lamda nu"
    using RiemannGeometry_init_ok[OF assms] by blast
  have "np_get (christoffel_symbols rg) [rho, lamda, nu] = Inr (christoffel_formula B g g_inv x rho lamda nu)"
    if "rho < length g" "lamda < length g" "nu < length g" for rho lamda nu
    using that rg(2,3) by (simp add: in_shape3)
  then show ?thesis using rg(1)
    unfolding christoffel_formula_def christoffel_summand_def by blast
qed

text \<open>
  Witness for C1: the plane in polar coordinates around the point \<open>x = -1\<close>,
  \<open>g = diag(1, (1 + x)\<^sup>2)\<close>.  The symbol \<open>Gamma[0][1][1]\<close> is \<open>- (1 + x)\<close>; its constant
  coefficient is \<open>-1\<close>.
\<close>

theorem christoffel_symbols_formula_witness:
  "\<exists>rg. RiemannGeometry_init series_backend [[1, 0], [0, (1 + X) * (1 + X)]] [''x'', ''y''] = Inr rg
      \<and> (\<exists>e. np_get (christoffel_symbols rg) [0, 1, 1] = Inr e \<and> coeff e 0 = - 1)"
proof -
  let ?g = "[[1, 0], [0, (1 + X) * (1 + X)]] :: series list list"
  let ?gi = "[[(1 + X) * (1 + X) / (1 * ((1 + X) * (1 + X)) - 0 * 0), - 0 / (1 * ((1 + X) * (1 + X)) - 0 * 0)],
           [- 0 / (1 * ((1 + X) * (1 + X)) - 0 * 0), 1 / (1 * ((1 + X) * (1 + X)) - 0 * 0)]] :: series list list"
  let ?x = "[''x'', ''y'']"
  have h: "is_square ?g" "is_square ?gi" "length ?gi = length ?g" "length ?g \<le> length ?x"
    by (simp_all add: is_square_def)
  note th = christoffel_symbols_formula[OF h(1) polar_inverse h(2,3,4),
      folded christoffel_summand_def christoffel_formula_def]
  then obtain rg where rg: "RiemannGeometry_init series_backend ?g ?x = Inr rg"
    and f: "\<forall>rho<length ?g. \<forall>lamda<length ?g. \<forall>nu<length ?g.
          np_get (christoffel_symbols rg) [rho, lamda, nu]
            = Inr (christoffel_formula series_backend ?g ?gi ?x rho lamda nu)"
    by blast
  have e: "np_get (christoffel_symbols rg) [0, 1, 1] = Inr (christoffel_formula series_backend ?g ?gi ?x 0 1 1)"
    using f by simp
  have c: "coeff (christoffel_formula series_backend ?g ?gi ?x 0 1 1) 0 = - 1"
    by (simp add: christoffel_formula_def christoffel_summand_def sum_lessThan_2 series_backend_def coeff_mult_1)
  show ?thesis using rg e c by blast
qed

text \<open>
  Claim C2.  Under the same conditions, for every index quadruple below \<open>n\<close> the Riemann
  array holds \<open>simplify\<close> applied once to
  \<open>d Gamma[rho][lamda][nu] / d x[mu] - d Gamma[rho][lamda][mu] / d x[nu]
     + Sum over sigma of (Gamma[sigma][lamda][nu] * Gamma[rho][sigma][mu]
                          - Gamma[sigma][lamda][mu] * Gamma[rho][sigma][nu])\<close>,
  where \<open>Gamma\<close> is the Christoffel array of the same object.
\<close>

theorem riemann_tensor_formula:
  assumes "is_square g" and "bk_inv B g = Some g_inv"
    and "is_square g_inv" and "length g_inv = length g" and "length g \<le> length x"
  shows "\<exists>rg. RiemannGeometry_init B g x = Inr rg \<and>
     (\<forall>rho<length g. \<forall>lamda<length g. \<forall>mu<length g. \<forall>nu<length g.
        np_get (riemann_curvature_tensor rg) [rho, lamda, mu, nu] =
          Inr (bk_simplify B
                (bk_diff B (data (christoffel_symbols rg) [rho, lamda, nu]) (x ! mu)
                 - bk_diff B (data (christoffel_symbols rg) [rho, lamda, mu]) (x ! nu)
                 + (\<Sum>sigma<length g.
                      data (christoffel_symbols rg) [sigma, lamda, nu]
                        * data (christoffel_symbols rg) [rho, sigma, mu]
                      - data (christoffel_symbols rg) [sigma, lamda, mu]
                        * data (christoffel_symbols rg) [rho, sigma, nu]))))"
proof -
  obtain rg where rg: "RiemannGeometry_init B g x = Inr rg"
      "shape (riemann_curvature_tensor rg) = [length g, length g, length g, length g]"
      "\<forall>rho<length g. \<forall>lamda<length g. \<forall>mu<length g. \<forall>nu<length g.
          data (riemann_curvature_tensor rg) [rho, lamda, mu, nu]
            = riemann_formula B x (length g) (data (christoffel_symbols rg)) rho lamda mu nu"
    using RiemannGeometry_init_ok[OF assms] by blast
  have "np_get (riemann_curvature_tensor rg) [rho, lamda, mu, nu]
        = Inr (riemann_formula B x (length g) (data (christoffel_symbols rg)) rho lamda mu nu)"
    if "rho < length g" "lamda < length g" "mu < length g" "nu < length g" for rho lamda mu nu
    using that rg(2,3) by (simp add: in_shape4)
  then show ?thesis using rg(1)
    unfolding riemann_formula_def by blast
qed

text \<open>
  Witness for C2: the polar metric, at the index \<open>[0, 1, 0, 1]\<close>.
\<close>

theorem riemann_tensor_formula_witness:
  "\<exists>rg. RiemannGeometry_init series_backend [[1, 0], [0, (1 + X) * (1 + X)]] [''x'', ''y''] = Inr rg
      \<and> np_get (riemann_curvature_tensor rg) [0, 1, 0, 1]
          = Inr (riemann_formula series_backend [''x'', ''y''] 2 (data (christoffel_symbols rg)) 0 1 0 1)"
proof -
  note th = riemann_tensor_formula[OF polar_square(1) polar_inverse polar_square(2,3,4),
      folded riemann_formula_def]
  then obtain rg where rg: "RiemannGeometry_init series_backend [[1, 0], [0, (1 + X) * (1 + X)]] [''x'', ''y''] = Inr rg"
    and f: "\<forall>rho<length [[1, 0], [0, (1 + X) * (1 + X)]]. \<forall>lamda<length [[1, 0], [0, (1 + X) * (1 + X)]].
            \<forall>mu<length [[1, 0], [0, (1 + X) * (1 + X)]]. \<forall>nu<length [[1, 0], [0, (1 + X) * (1 + X)]].
          np_get (riemann_curvature_tensor rg) [rho, lamda, mu, nu]
            = Inr (riemann_formula series_backend [''x'', ''y''] (length [[1, 0], [0, (1 + X) * (1 + X)]])
                     (data (christoffel_symbols rg)) rho lamda mu nu)"
    by blast
  have "np_get (riemann_curvature_tensor rg) [0, 1, 0, 1]
          = Inr (riemann_formula series_backend [''x'', ''y''] 2 (data (christoffel_symbols rg)) 0 1 0 1)"
    using f by (simp add: numeral_2_eq_2)
  then show ?thesis using rg by blast
qed

text \<open>
  Claim C4.  When the metric does not have two rows, construction of a
  ClassicalDifferentialGeometry fails; when the metric is otherwise accepted (the base
  constructor succeeds), the failure is the \<open>AssertionError\<close> of the two-dimensional check,
  which the design text names \<open>DimensionalityError\<close>.
\<close>

theorem classical_requires_two_dimensions:
  assumes "length g \<noteq> 2"
  shows "(\<exists>e. ClassicalDifferentialGeometry_init B g x = Inl e)
    \<and> (\<forall>self. DifferentialGeometry_init B g x = Inr self
          \<longrightarrow> ClassicalDifferentialGeometry_init B g x = Inl AssertionError)"
proof (cases "DifferentialGeometry_init B g x")
  case (Inl e)
  then show ?thesis by (simp add: ClassicalDifferentialGeometry_init_def)
next
  case (Inr self)
  then have "ndim self \<noteq> 2" using assms DifferentialGeometry_init_ndim by metis
  then show ?thesis using Inr by (simp add: ClassicalDifferentialGeometry_init_def)
qed

text \<open>
  Witness for C4: the one-dimensional metric \<open>[[1]]\<close>.
\<close>

theorem classical_requires_two_dimensions_witness:
  "ClassicalDifferentialGeometry_init constant_backend [[1]] [''x''] = Inl AssertionError"
  using classical_requires_two_dimensions[of "[[1]]" constant_backend "[''x'']"] line_init
  by simp






text \<open>
  Claim C7 as stated fails: construction accepts a metric that is not symmetric, and then
  the Christoffel symbols need not be symmetric.  For \<open>g = [[1, x], [0, 1]]\<close> the constant
  coefficient of \<open>Gamma[0][0][1]\<close> is \<open>1/2\<close> and that of \<open>Gamma[0][1][0]\<close> is \<open>0\<close>.
\<close>

theorem christoffel_not_symmetric_counterexample:
  "map_sum id (\<lambda>e. coeff e 0) (christoffel_at series_backend [[1, X], [0, 1]] [''x'', ''y''] [0, 0, 1]) = Inr (1 / 2)
   \<and> map_sum id (\<lambda>e. coeff e 0) (christoffel_at series_backend [[1, X], [0, 1]] [''x'', ''y''] [0, 1, 0]) = Inr 0"
proof -
  let ?g = "[[1, X], [0, 1]] :: series list list"
  let ?gi = "[[1 / (1 * 1 - X * 0), - X / (1 * 1 - X * 0)], [- 0 / (1 * 1 - X * 0), 1 / (1 * 1 - X * 0)]] :: series list list"
  let ?x = "[''x'', ''y'']"
  have h: "is_square ?g" "is_square ?gi" "length ?gi = length ?g" "length ?g \<le> length ?x"
    by (simp_all add: is_square_def)
  obtain rg where rg: "RiemannGeometry_init series_backend ?g ?x = Inr rg"
    and sh: "shape (christoffel_symbols rg) = [length ?g, length ?g, length ?g]"
    and f: "\<forall>rho<length ?g. \<forall>lamda<length ?g. \<forall>nu<length ?g.
          data (christoffel_symbols rg) [rho, lamda, nu]
            = christoffel_formula series_backend ?g ?gi ?x rho lamda nu"
    using RiemannGeometry_init_ok[OF h(1) shear_inverse h(2,3,4)] by blast
  have a: "christoffel_at series_backend ?g ?x [0, 0, 1] = Inr (christoffel_formula series_backend ?g ?gi ?x 0 0 1)"
    using rg sh f by (simp add: christoffel_at_def in_shape_def np_get_def)
  have b: "christoffel_at series_backend ?g ?x [0, 1, 0] = Inr (christoffel_formula series_backend ?g ?gi ?x 0 1 0)"
    using rg sh f by (simp add: christoffel_at_def in_shape_def np_get_def)
  have ca: "coeff (christoffel_formula series_backend ?g ?gi ?x 0 0 1) 0 = 1 / 2"
    by (simp add: christoffel_formula_def christoffel_summand_def sum_lessThan_2 series_backend_def)
  have cb: "coeff (christoffel_formula series_backend ?g ?gi ?x 0 1 0) 0 = 0"
    by (simp add: christoffel_formula_def christoffel_summand_def sum_lessThan_2 series_backend_def)
  show ?thesis unfolding a b using ca cb by simp
qed

text \<open>
  Claim C7, amended.  For every symmetric metric accepted at construction and every index
  triple below \<open>n\<close>, \<open>Gamma[rho][lamda][nu]\<close> and \<open>Gamma[rho][nu][lamda]\<close> are the same.
\<close>

theorem christoffel_symmetric_for_symmetric_metric:
  assumes "is_square g" and "bk_inv B g = Some g_inv"
    and "is_square g_inv" and "length g_inv = length g" and "length g \<le> length x"
    and sym: "\<forall>i<length g. \<forall>j<length g. g ! i ! j = g ! j ! i"
  shows "\<exists>rg. RiemannGeometry_init B g x = Inr rg \<and>
     (\<forall>rho<length g. \<forall>lamda<length g. \<forall>nu<length g.
        np_get (christoffel_symbols rg) [rho, lamda, nu]
          = np_get (christoffel_symbols rg) [rho, nu, lamda])"
proof -
  obtain rg where rg: "RiemannGeometry_init B g x = Inr rg"
      "shape (christoffel_symbols rg) = [length g, length g, length g]"
      "\<forall>rho<length g. \<forall>lamda<length g. \<forall>nu<length g.
          data (christoffel_symbols rg) [rho, lamda, nu] = christoffel_formula B g g_inv x rho lamda nu"
    using RiemannGeometry_init_ok[OF assms(1-5)] by blast
  have "np_get (christoffel_symbols rg) [rho, lamda, nu] = np_get (christoffel_symbols rg) [rho, nu, lamda]"
    if "rho < length g" "lamda < length g" "nu < length g" for rho lamda nu
    using that rg(2,3) christoffel_formula_symmetric[OF sym that(2,3)] by (simp add: in_shape3)
  then show ?thesis using rg(1) by blast
qed

text \<open>
  Witness for C7 amended: the polar metric, at \<open>[1, 0, 1]\<close> and \<open>[1, 1, 0]\<close>.
\<close>

theorem christoffel_symmetric_for_symmetric_metric_witness:
  "\<exists>rg. RiemannGeometry_init series_backend [[1, 0], [0, (1 + X) * (1 + X)]] [''x'', ''y''] = Inr rg
      \<and> np_get (christoffel_symbols rg) [1, 0, 1] = np_get (christoffel_symbols rg) [1, 1, 0]"
proof -
  have sym: "\<forall>i<length [[1, 0], [0, (1 + X) * (1 + X)]]. \<forall>j<length [[1, 0], [0, (1 + X) * (1 + X)]].
      [[1, 0], [0, (1 + X) * (1 + X)]] ! i ! j = [[1, 0], [0, (1 + X) * (1 + X)]] ! j ! i"
    by (simp add: less_Suc_eq numeral_2_eq_2)
  from christoffel_symmetric_for_symmetric_metric[OF polar_square(1) polar_inverse polar_square(2,3,4) sym]
  obtain rg where rg: "RiemannGeometry_init series_backend [[1, 0], [0, (1 + X) * (1 + X)]] [''x'', ''y''] = Inr rg"
    and f: "\<forall>rho<length [[1, 0], [0, (1 + X) * (1 + X)]]. \<forall>lamda<length [[1, 0], [0, (1 + X) * (1 + X)]].
            \<forall>nu<length [[1, 0], [0, (1 + X) * (1 + X)]].
          np_get (christoffel_symbols rg) [rho, lamda, nu] = np_get (christoffel_symbols rg) [rho, nu, lamda]"
    by blast
  have "np_get (christoffel_symbols rg) [1, 0, 1] = np_get (christoffel_symbols rg) [1, 1, 0]"
    using f by simp
  then show ?thesis using rg by blast
qed

text \<open>
  Claim C8.  For every metric accepted at construction and every index quadruple below
  \<open>n\<close>, \<open>R[rho][lamda][mu][nu] = - R[rho][lamda][nu][mu]\<close>, when \<open>simplify\<close> commutes
  with negation (as it does when it preserves the value of its argument).
\<close>

theorem riemann_antisymmetric:
  assumes "is_square g" and "bk_inv B g = Some g_inv"
    and "is_square g_inv" and "length g_inv = length g" and "length g \<le> length x"
    and neg: "\<forall>e. bk_simplify B (- e) = - bk_simplify B e"
  shows "\<exists>rg. RiemannGeometry_init B g x = Inr rg \<and>
     (\<forall>rho<length g. \<forall>lamda<length g. \<forall>mu<length g. \<forall>nu<length g.
        \<exists>r. np_get (riemann_curvature_tensor rg) [rho, lamda, nu, mu] = Inr r
           \<and> np_get (riemann_curvature_tensor rg) [rho, lamda, mu, nu] = Inr (- r))"
proof -
  obtain rg where rg: "RiemannGeometry_init B g x = Inr rg"
      "shape (riemann_curvature_tensor rg) = [length g, length g, length g, length g]"
      "\<forall>rho<length g. \<forall>lamda<length g. \<forall>mu<length g. \<forall>nu<length g.
          data (riemann_curvature_tensor rg) [rho, lamda, mu, nu]
            = riemann_formula B x (length g) (data (christoffel_symbols rg)) rho lamda mu nu"
    using RiemannGeometry_init_ok[OF assms(1-5)] by blast
  have "\<exists>r. np_get (riemann_curvature_tensor rg) [rho, lamda, nu, mu] = Inr r
           \<and> np_get (riemann_curvature_tensor rg) [rho, lamda, mu, nu] = Inr (- r)"
    if "rho < length g" "lamda < length g" "mu < length g" "nu < length g" for rho lamda mu nu
    using that rg(2,3) riemann_formula_antisymmetric[OF neg, of x "length g" _ rho lamda mu nu]
    by (simp add: in_shape4)
  then show ?thesis using rg(1) by blast
qed

text \<open>
  Witness for C8: the polar metric, at \<open>[0, 1, 1, 0]\<close> and \<open>[0, 1, 0, 1]\<close>.
\<close>

theorem riemann_antisymmetric_witness:
  "\<exists>rg. RiemannGeometry_init series_backend [[1, 0], [0, (1 + X) * (1 + X)]] [''x'', ''y''] = Inr rg
      \<and> (\<exists>r. np_get (riemann_curvature_tensor rg) [0, 1, 1, 0] = Inr r
             \<and> np_get (riemann_curvature_tensor rg) [0, 1, 0, 1] = Inr (- r))"
proof -
  have neg: "\<forall>e. bk_simplify series_backend (- e) = - bk_simplify series_backend e"
    by (simp add: series_backend_def)
  from riemann_antisymmetric[OF polar_square(1) polar_inverse polar_square(2,3,4) neg]
  obtain rg where rg: "RiemannGeometry_init series_backend [[1, 0], [0, (1 + X) * (1 + X)]] [''x'', ''y''] = Inr rg"
    and f: "\<forall>rho<length [[1, 0], [0, (1 + X) * (1 + X)]]. \<forall>lamda<length [[1, 0], [0, (1 + X) * (1 + X)]].
            \<forall>mu<length [[1, 0], [0, (1 + X) * (1 + X)]]. \<forall>nu<length [[1, 0], [0, (1 + X) * (1 + X)]].
        \<exists>r. np_get (riemann_curvature_tensor rg) [rho, lamda, nu, mu] = Inr r
           \<and> np_get (riemann_curvature_tensor rg) [rho, lamda, mu, nu] = Inr (- r)"
    by blast
  have "\<exists>r. np_get (riemann_curvature_tensor rg) [0, 1, 1, 0] = Inr r
           \<and> np_get (riemann_curvature_tensor rg) [0, 1, 0, 1] = Inr (- r)"
    using f by simp
  then show ?thesis using rg by blast
qed

text \<open>
  Claim C3.  For every symmetric metric with two rows and at least two symbols, both
  constructions succeed and the Gaussian curvature of the classical object, computed by the
  Brioschi formula, is half the Ricci scalar of the Riemannian object.  The two are equal as
  values: differentiation by either symbol is a derivation, the two derivations commute,
  \<open>simplify\<close> preserves the value, and the library returns the inverse and the determinant
  of the metric.
\<close>

theorem gaussian_curvature_is_half_ricci_scalar:
  fixes B :: "('e::field_char_0, 'v) symbolic_backend"
  assumes sq: "is_square g" and two: "length g = 2" and sym: "g ! 0 ! 1 = g ! 1 ! 0"
    and xs: "2 \<le> length x"
    and inv: "bk_inv B g = Some g_inv" and isq: "is_square g_inv" and itwo: "length g_inv = 2"
    and inverse: "inverse_2x2 g g_inv" and determinant: "bk_det B g = det_2x2 g"
    and d0: "derivation B (x ! 0)" and d1: "derivation B (x ! 1)" and comm: "commuting B (x ! 0) (x ! 1)"
    and vp: "value_preserving B"
  shows "\<exists>cg rg. ClassicalDifferentialGeometry_init B g x = Inr cg
           \<and> RiemannGeometry_init B g x = Inr rg
           \<and> gaussian_curvature cg = ricci_scalar rg / 2"
proof -
  define E F G where "E = g ! 0 ! 0" and "F = g ! 0 ! 1" and "G = g ! 1 ! 1"
  have g: "g = [[E, F], [F, G]]"
    using square_two_rows[OF sq two] sym unfolding E_def F_def G_def by simp
  have gi0: "g_inv = [[g_inv ! 0 ! 0, g_inv ! 0 ! 1], [g_inv ! 1 ! 0, g_inv ! 1 ! 1]]"
    by (rule square_two_rows[OF isq itwo])
  have i2: "inverse_2x2 [[E, F], [F, G]] [[g_inv ! 0 ! 0, g_inv ! 0 ! 1], [g_inv ! 1 ! 0, g_inv ! 1 ! 1]]"
    using inverse g gi0 by metis
  note ent = inverse_2x2_entries[OF i2]
  have det: "E * G - F * F \<noteq> 0" by (rule ent(1))
  have gi: "g_inv = [[G / (E * G - F * F), - F / (E * G - F * F)], [- F / (E * G - F * F), E / (E * G - F * F)]]"
    using gi0 ent(2-5) by metis
  have dt: "bk_det B g = E * G - F * F"
    unfolding determinant det_2x2_def using g by simp
  let ?self = "\<lparr>metric = g, inverse_metric = g_inv, det = bk_det B g, ndim = length g,
          variables = x, parameterized_vars = map (bk_Function B) x\<rparr>"
  have init: "DifferentialGeometry_init B g x = Inr ?self"
    by (rule DifferentialGeometry_init_ok[OF sq inv])
  have k: "compute_gaussian_curvature B ?self = Inr (brioschi B E F G (x ! 0) (x ! 1))"
    using compute_gaussian_curvature_brioschi[of ?self E F G B] g dt xs vp by simp
  obtain cg where cg: "ClassicalDifferentialGeometry_init B g x = Inr cg"
      "gaussian_curvature cg = brioschi B E F G (x ! 0) (x ! 1)"
    using k by (simp add: ClassicalDifferentialGeometry_init_def init two)
  have le: "length g \<le> length x" "length g_inv = length g" using two itwo xs by simp_all
  obtain rg where rg: "RiemannGeometry_init B g x = Inr rg"
    and cs: "\<forall>rho<length g. \<forall>lamda<length g. \<forall>nu<length g.
          data (christoffel_symbols rg) [rho, lamda, nu] = christoffel_formula B g g_inv x rho lamda nu"
    and rt: "\<forall>rho<length g. \<forall>lamda<length g. \<forall>mu<length g. \<forall>nu<length g.
          data (riemann_curvature_tensor rg) [rho, lamda, mu, nu]
            = riemann_formula B x (length g) (data (christoffel_symbols rg)) rho lamda mu nu"
    and rc: "\<forall>mu<length g. \<forall>nu<length g.
          data (ricci_tensor rg) [mu, nu]
            = ricci_formula B (length g) (data (riemann_curvature_tensor rg)) mu nu"
    and rs: "ricci_scalar rg = ricci_scalar_formula B g_inv (length g) (data (ricci_tensor rg))"
    using RiemannGeometry_init_ok[OF sq inv isq le(2,1)] by blast
  have "ricci_scalar rg = 2 * brioschi B E F G (x ! 0) (x ! 1)"
    unfolding rs two
    by (rule ricci_scalar_two_dimensions[OF d0 d1 comm vp det g gi cs[unfolded two] rt[unfolded two] rc[unfolded two]])
  then show ?thesis using cg rg by simp
qed

text \<open>
  Witness for C3: the constant metric \<open>[[2, 1], [1, 3]]\<close> over the rationals, of determinant 5.
\<close>

theorem gaussian_curvature_is_half_ricci_scalar_witness:
  "\<exists>cg rg. ClassicalDifferentialGeometry_init constant_backend [[2, 1], [1, 3]] [''x'', ''y''] = Inr cg
           \<and> RiemannGeometry_init constant_backend [[2, 1], [1, 3]] [''x'', ''y''] = Inr rg
           \<and> gaussian_curvature cg = ricci_scalar rg / 2"
proof (rule gaussian_curvature_is_half_ricci_scalar[where g_inv = "[[3 / 5, - 1 / 5], [- 1 / 5, 2 / 5]]"])
  show "bk_inv constant_backend [[2, 1], [1, 3]] = Some [[3 / 5, - 1 / 5], [- 1 / 5, 2 / 5]]"
    by (simp add: constant_backend_def)
  show "inverse_2x2 [[2, 1], [1, 3]] [[3 / 5, - 1 / 5], [- 1 / 5, 2 / 5 :: rat]]"
    by (simp add: inverse_2x2_def)
  show "bk_det constant_backend [[2, 1], [1, 3]] = det_2x2 [[2, 1], [1, 3]]"
    by (simp add: constant_backend_def det_2x2_def)
qed (simp_all add: is_square_def constant_backend_laws)

text \<open>
  Claim C9.  When seeding the generator discards its earlier state, two calls of
  \<open>solve_geodesic_equation\<close> on the same model with the same seed return the same
  trajectory (or raise the same exception) and leave the generator in the same state,
  whatever state each call starts in.  Both draw the same initial state, of \<open>2 * ndim\<close>
  numbers, each in \<open>[0, 1)\<close> when the generator's draws are.
\<close>

theorem geodesic_deterministic_in_seed:
  fixes B :: "('e::{comm_ring_1,inverse}, 'v) symbolic_backend"
    and N :: "('e, 'v, 'r::linordered_field, 'g, 's) numeric_backend"
  assumes reseed: "\<forall>g g'. bk_seed N seed g = bk_seed N seed g'"
    and unit: "\<forall>g. 0 \<le> fst (bk_random N g) \<and> fst (bk_random N g) < 1"
  shows "solve_geodesic_equation B N self seed rng = solve_geodesic_equation B N self seed rng'
     \<and> initial_state N (ndim self) seed rng = initial_state N (ndim self) seed rng'
     \<and> length (fst (initial_state N (ndim self) seed rng)) = 2 * ndim self
     \<and> (\<forall>r\<in>set (fst (initial_state N (ndim self) seed rng)). 0 \<le> r \<and> r < 1)"
proof -
  have s: "bk_seed N seed rng = bk_seed N seed rng'" using reseed by blast
  have i: "initial_state N (ndim self) seed rng = initial_state N (ndim self) seed rng'"
    by (simp add: initial_state_def s)
  have "solve_geodesic_equation B N self seed rng = solve_geodesic_equation B N self seed rng'"
    unfolding solve_geodesic_equation_def Let_def i s by (rule refl)
  moreover have "length (fst (initial_state N (ndim self) seed rng)) = 2 * ndim self"
    by (simp add: initial_state_def random_list_length)
  moreover have "\<forall>r\<in>set (fst (initial_state N (ndim self) seed rng)). 0 \<le> r \<and> r < 1"
    unfolding initial_state_def by (rule random_list_range[OF unit])
  ultimately show ?thesis using i by blast
qed

text \<open>
  Witness for C9: the flat plane with seed 104, called in generator states 0 and 7; the four
  numbers drawn are the same.
\<close>

theorem geodesic_deterministic_in_seed_witness:
  "solve_geodesic_equation series_backend example_numeric flat_plane 104 0
     = solve_geodesic_equation series_backend example_numeric flat_plane 104 7
   \<and> fst (initial_state example_numeric 2 104 0) = [13 / 125, 437 / 500, 791 / 1000, 399 / 1000]
   \<and> fst (initial_state example_numeric 2 104 7) = [13 / 125, 437 / 500, 791 / 1000, 399 / 1000]"
proof -
  have reseed: "\<forall>g g'. bk_seed example_numeric (104::nat) g = bk_seed example_numeric 104 g'"
    by (simp add: example_numeric_def)
  note th = geodesic_deterministic_in_seed[OF reseed example_numeric_unit,
      of series_backend flat_plane 0 7]
  have n: "ndim flat_plane = 2" by (simp add: flat_plane_def)
  have v: "fst (initial_state example_numeric 2 104 0) = [13 / 125, 437 / 500, 791 / 1000, 399 / 1000]"
    by (simp add: initial_state_def example_numeric_def random_list_4)
  have i: "initial_state example_numeric 2 104 0 = initial_state example_numeric 2 104 7"
    using th unfolding n by blast
  show ?thesis using th v unfolding i[symmetric] by blast
qed



end
